theory Spec2Isabelle
  imports Complex_Main "HOL-Library.Word" "HOL-Library.Multiset"
begin

section \<open>The audio delta pipeline of ConsolePage.tsx\<close>

text \<open>
  The page bridges the realtime model's 24 kHz PCM16 deltas to an avatar transport that
  takes 16 kHz PCM16 bytes. This theory embeds the resampler, the channel-readiness gate,
  the pending audio buffer and the handlers that drive them, and proves the properties the
  specification states about them.
\<close>

subsection \<open>Numbers\<close>

text \<open>
  A JavaScript number is a binary64 value. A finite one is a rational, and every
  arithmetic operation yields the binary64 value nearest to the exact result, ties going
  to the even significand: \<open>binary64\<close> is that rounding, to 53 significant bits.
  The exponent range is left open: overflow to infinity and the loss of precision below
  \<open>2 ^ -1022\<close> are not modelled. The theorems about the resampler that depend on it
  bound the size of the output, which keeps the ratio of the rates and every source index
  inside the normal range. Rates are positive finite numbers; the specification makes that
  the caller's precondition, and every theorem about the resampler carries it.
\<close>

type_synonym int16 = "16 word"
type_synonym byte = "8 word"

text \<open>The number of binary digits of a positive integer.\<close>

function bit_length :: "int \<Rightarrow> nat" where
  "bit_length n = (if n \<le> 0 then 0 else Suc (bit_length (n div 2)))"
  by pat_completeness auto
termination
  by (relation "measure nat") auto

declare bit_length.simps [simp del]

definition pow2 :: "int \<Rightarrow> rat" where
  "pow2 e = (if 0 \<le> e then 2 ^ nat e else 1 / 2 ^ nat (- e))"

text \<open>For \<open>x > 0\<close>, the \<open>e\<close> with \<open>2 ^ e \<le> x < 2 ^ (e + 1)\<close>.\<close>

definition exponent :: "rat \<Rightarrow> int" where
  "exponent x =
     (if 1 \<le> x then int (bit_length \<lfloor>x\<rfloor>) - 1
      else - int (bit_length (\<lceil>1 / x\<rceil> - 1)))"

definition round_half_even :: "rat \<Rightarrow> int" where
  "round_half_even y =
     (let f = \<lfloor>y\<rfloor>; d = y - of_int f
      in if d < 1 / 2 then f else if 1 / 2 < d then f + 1 else if even f then f else f + 1)"

definition binary64 :: "rat \<Rightarrow> rat" where
  "binary64 x =
     (if x = 0 then 0
      else let ulp = pow2 (exponent \<bar>x\<bar> - 52)
           in of_int (round_half_even (x / ulp)) * ulp)"

text \<open>
  \<open>Math.round\<close> gives the nearest integer, ties towards plus infinity, and
  \<open>Math.floor\<close> the integer below; neither rounds its result a second time.
\<close>

definition Math_round :: "rat \<Rightarrow> int" where
  "Math_round x = \<lfloor>x + 1 / 2\<rfloor>"

definition Math_floor :: "rat \<Rightarrow> int" where
  "Math_floor x = \<lfloor>x\<rfloor>"

subsection \<open>Typed arrays\<close>

text \<open>
  Storing a number into an \<open>Int16Array\<close> applies \<open>ToInt16\<close>: the fraction is cut off
  towards zero and the integer is taken modulo \<open>2 ^ 16\<close>.
\<close>

definition ToInt16 :: "rat \<Rightarrow> int16" where
  "ToInt16 x = word_of_int (if x < 0 then \<lceil>x\<rceil> else \<lfloor>x\<rfloor>)"

text \<open>
  Reading a typed array outside \<open>0 .. length - 1\<close> yields \<open>undefined\<close>, which is
  \<open>None\<close> here. A typed array has fewer than \<open>2 ^ 53\<close> elements, so its length and
  every index into it are numbers without rounding.
\<close>

definition typed_get :: "int16 list \<Rightarrow> int \<Rightarrow> int16 option" where
  "typed_get a i = (if 0 \<le> i \<and> i < int (length a) then Some (a ! nat i) else None)"

text \<open>
  A read of the input, as the loop makes it: the value read, and the index appended to
  the list of indices read so far.
\<close>

definition read_input :: "int16 list \<Rightarrow> int \<Rightarrow> int list \<Rightarrow> int16 option \<times> int list" where
  "read_input inputData index reads = (typed_get inputData index, reads @ [index])"

subsection \<open>resampleAudioData\<close>

definition sampleRateRatio :: "rat \<Rightarrow> rat \<Rightarrow> rat" where
  "sampleRateRatio inputSampleRate outputSampleRate =
     binary64 (inputSampleRate / outputSampleRate)"

definition outputLength :: "nat \<Rightarrow> rat \<Rightarrow> rat \<Rightarrow> int" where
  "outputLength inputLength inputSampleRate outputSampleRate =
     Math_round (binary64 (of_nat inputLength /
       sampleRateRatio inputSampleRate outputSampleRate))"

definition sourceIndex :: "rat \<Rightarrow> nat \<Rightarrow> rat" where
  "sourceIndex ratio i = binary64 (of_nat i * ratio)"

definition lowerIndex :: "rat \<Rightarrow> nat \<Rightarrow> int" where
  "lowerIndex ratio i = Math_floor (sourceIndex ratio i)"

definition upperIndex :: "int16 list \<Rightarrow> rat \<Rightarrow> nat \<Rightarrow> int" where
  "upperIndex inputData ratio i =
     min (lowerIndex ratio i + 1) (int (length inputData) - 1)"

text \<open>
  The body of the loop at index \<open>i\<close>: the value stored at \<open>outputData[i]\<close> and the
  extended list of reads. The lower neighbour is read first, then the upper one.
  Arithmetic on \<open>undefined\<close> is \<open>NaN\<close>, and \<open>NaN\<close> is stored as 0.
\<close>

definition interpolated :: "int16 list \<Rightarrow> rat \<Rightarrow> nat \<Rightarrow> int list \<Rightarrow> int16 \<times> int list" where
  "interpolated inputData ratio i reads =
     (let interpolation = binary64 (sourceIndex ratio i - of_int (lowerIndex ratio i));
          (lower, reads1) = read_input inputData (lowerIndex ratio i) reads;
          (upper, reads2) = read_input inputData (upperIndex inputData ratio i) reads1
      in (case (lower, upper) of
            (Some lo, Some hi) \<Rightarrow>
              ToInt16 (binary64
                (binary64 (binary64 (1 - interpolation) * of_int (sint lo)) +
                 binary64 (interpolation * of_int (sint hi))))
          | _ \<Rightarrow> 0,
          reads2))"

text \<open>
  The \<open>for\<close> loop, from index \<open>i\<close> on. The state is the output array together with the
  list of input indices read so far.
\<close>

function resample_loop ::
  "int16 list \<Rightarrow> rat \<Rightarrow> nat \<Rightarrow> nat \<Rightarrow> int16 list \<times> int list \<Rightarrow> int16 list \<times> int list" where
  "resample_loop inputData ratio n i (outputData, reads) =
     (if i < n then
        (case interpolated inputData ratio i reads of
           (v, reads') \<Rightarrow> resample_loop inputData ratio n (Suc i) (outputData[i := v], reads'))
      else (outputData, reads))"
  by pat_completeness auto
termination
  by (relation "measure (\<lambda>(inputData, ratio, n, i, s). n - i)") auto

declare resample_loop.simps [simp del]

text \<open>
  \<open>new Int16Array(n)\<close> is \<open>n\<close> zeros; \<open>n\<close> is never negative for positive rates
  (lemma \<open>outputLength_nonneg\<close>), and the allocation is taken to succeed.
\<close>

definition resample_run :: "int16 list \<Rightarrow> rat \<Rightarrow> rat \<Rightarrow> int16 list \<times> int list" where
  "resample_run inputData inputSampleRate outputSampleRate =
     (let ratio = sampleRateRatio inputSampleRate outputSampleRate;
          n = nat (outputLength (length inputData) inputSampleRate outputSampleRate)
      in resample_loop inputData ratio n 0 (replicate n 0, []))"

definition resampleAudioData :: "int16 list \<Rightarrow> rat \<Rightarrow> rat \<Rightarrow> int16 list" where
  "resampleAudioData inputData inputSampleRate outputSampleRate =
     fst (resample_run inputData inputSampleRate outputSampleRate)"

definition resample_reads :: "int16 list \<Rightarrow> rat \<Rightarrow> rat \<Rightarrow> int list" where
  "resample_reads inputData inputSampleRate outputSampleRate =
     snd (resample_run inputData inputSampleRate outputSampleRate)"

subsection \<open>Collaborators, as the page sees them\<close>

text \<open>
  The avatar client exposes its peer connection and data channel, either of which may be
  \<open>null\<close>. Only the two state strings the page reads are kept.
\<close>

record peer_connection =
  iceConnectionState :: string

record data_channel =
  readyState :: string

record simli_client =
  pc :: "peer_connection option"
  dc :: "data_channel option"

text \<open>The result of \<open>wavStreamPlayer.interrupt()\<close> when it is not \<open>null\<close>.\<close>

record track_sample_offset =
  trackId :: "string option"
  offset :: int

record wav_file =
  url :: string

text \<open>\<open>ItemType\<close> and its \<open>formatted\<close> part.\<close>

record formatted =
  formatted_text :: "string option"
  formatted_transcript :: "string option"
  formatted_audio :: "int16 list option"
  formatted_tool :: "(string \<times> string) option"
  formatted_output :: "string option"
  formatted_file :: "wav_file option"

record item =
  item_id :: string
  item_role :: "string option"
  item_type :: "string option"
  item_status :: "string option"
  item_formatted :: formatted

record delta =
  delta_audio :: "int16 list option"

text \<open>
  Calls to collaborators are recorded in the order the page makes them. A call the page
  awaits may reject; where the source has no \<open>try\<close> around it, the handler ends with
  that call.
\<close>

datatype call =
    NewAudioContext
  | ContextResume
  | ContextClose
  | SimliStart
  | SendAudioData "byte list"
  | SimliClose
  | ClientConnect
  | ClientDisconnect
  | GetTurnDetectionType
  | CancelResponse string int
  | CreateResponse
  | DeleteItem string
  | RecorderBegin
  | RecorderRecord
  | RecorderPause
  | RecorderEnd
  | PlayerConnect
  | PlayerInterrupt
  | Decode "int16 list"
  | NewAudio string

text \<open>
  What the collaborators answer during one handler run: whether an \<open>AudioContext\<close> can
  be constructed and in which state, whether \<open>resume\<close> and \<open>close\<close> resolve, the
  session's item list (references into the item store) and turn-detection mode, what the
  player's \<open>interrupt\<close> resolves to, the decoder's answer (\<open>None\<close> when it rejects),
  and which of the other awaited calls (\<open>connect\<close>, \<open>begin\<close>, \<open>record\<close>,
  \<open>pause\<close>, \<open>end\<close>, \<open>interrupt\<close>, \<open>cancelResponse\<close>) reject.
  The session client, the recorder, the player and the avatar client are libraries the
  page imports; their answers are parameters of the handlers, in the shapes the page's
  type annotations and the specification's interface list give them.
\<close>

record env =
  audioContextSupported :: bool
  newContextState :: string
  resumeOk :: bool
  closeOk :: bool
  getItems :: "nat list"
  getTurnDetectionType :: "string option"
  interruptResult :: "track_sample_offset option"
  decodeResult :: "wav_file option"
  rejects :: "call \<Rightarrow> bool"

text \<open>
  The state of the page: its refs and React state, the conversation items (objects owned
  by the session, shared by reference between the event's \<open>item\<close> and the item list),
  and the calls made so far. \<open>audioContext\<close> holds the context's \<open>state\<close> string, or
  \<open>None\<close> for \<open>null\<close>. The event log, the start time and the canvases only feed the
  display and are left out.
\<close>

record console =
  simliClientRef :: "simli_client option"
  simliAudioBufferRef :: "byte list list"
  audioContext :: "string option"
  isConnected :: bool
  isRecording :: bool
  items :: "nat list"
  heap :: "nat \<rightharpoonup> item"
  calls :: "call list"

definition call :: "call \<Rightarrow> console \<Rightarrow> console" where
  "call c st = st\<lparr>calls := calls st @ [c]\<rparr>"

text \<open>The payloads passed to \<open>sendAudioData\<close>, in call order.\<close>

fun sent :: "call list \<Rightarrow> byte list list" where
  "sent [] = []"
| "sent (SendAudioData b # cs) = b # sent cs"
| "sent (c # cs) = sent cs"

fun is_cancel :: "call \<Rightarrow> bool" where
  "is_cancel (CancelResponse tid off) = True"
| "is_cancel c = False"

text \<open>The calls a handler run added, given the state before and after.\<close>

definition emitted :: "console \<Rightarrow> console \<Rightarrow> call list" where
  "emitted st st' = drop (length (calls st)) (calls st')"

subsection \<open>The audio context\<close>

definition initializeAudioContext :: "env \<Rightarrow> console \<Rightarrow> string option \<times> console" where
  "initializeAudioContext e st =
     (if \<not> audioContextSupported e then (None, st)
      else
        let st1 = call NewAudioContext st in
        if newContextState e = ''suspended'' then
          (let st2 = call ContextResume st1 in
           if resumeOk e then (Some ''running'', st2\<lparr>audioContext := Some ''running''\<rparr>)
           else (None, st2))
        else (Some (newContextState e), st1\<lparr>audioContext := Some (newContextState e)\<rparr>))"

subsection \<open>The channel-readiness gate\<close>

text \<open>The function returns its answer together with the state it leaves behind.\<close>

definition isSimliDataChannelOpen :: "console \<Rightarrow> bool \<times> console" where
  "isSimliDataChannelOpen st =
     (case simliClientRef st of
        None \<Rightarrow> (False, st)
      | Some client \<Rightarrow>
          ((case pc client of
              None \<Rightarrow> False
            | Some p \<Rightarrow>
                iceConnectionState p = ''connected'' \<and>
                (case dc client of None \<Rightarrow> False | Some d \<Rightarrow> readyState d = ''open'')),
           st))"

subsection \<open>Connecting, disconnecting, talking\<close>

text \<open>
  \<open>connectConversation\<close> from \<open>setIsConnected(true)\<close> on. The three awaited calls
  before the turn-detection query stand outside any \<open>try\<close>.
\<close>

definition connect_session :: "env \<Rightarrow> console \<Rightarrow> console" where
  "connect_session e st =
     (let st1 = st\<lparr>isConnected := True, items := getItems e\<rparr>;
          st2 = (case simliClientRef st1 of
                   None \<Rightarrow> st1
                 | Some client \<Rightarrow> call (SendAudioData (replicate 6000 0)) (call SimliStart st1));
          st3 = call ClientConnect st2
      in if rejects e ClientConnect then st3
         else
           let st4 = call RecorderBegin st3 in
           if rejects e RecorderBegin then st4
           else
             let st5 = call PlayerConnect st4 in
             if rejects e PlayerConnect then st5
             else
               let st6 = call GetTurnDetectionType st5 in
               if getTurnDetectionType e = Some ''server_vad'' then call RecorderRecord st6
               else st6)"

definition connectConversation :: "env \<Rightarrow> console \<Rightarrow> console" where
  "connectConversation e st =
     (case audioContext st of
        None \<Rightarrow>
          (case initializeAudioContext e st of
             (None, st1) \<Rightarrow> st1
           | (Some context, st1) \<Rightarrow> connect_session e st1)
      | Some s \<Rightarrow>
          if s = ''suspended'' then
            (let st1 = call ContextResume st in
             if resumeOk e then connect_session e (st1\<lparr>audioContext := Some ''running''\<rparr>)
             else st1)
          else connect_session e st)"

definition disconnectConversation :: "env \<Rightarrow> console \<Rightarrow> console" where
  "disconnectConversation e st =
     (let st1 = st\<lparr>isConnected := False, items := []\<rparr>;
          st2 = call RecorderEnd (call ClientDisconnect st1)
      in if rejects e RecorderEnd then st2
         else
           let st3 = call PlayerInterrupt st2 in
           if rejects e PlayerInterrupt then st3
           else
             let st4 = (case simliClientRef st3 of
                          None \<Rightarrow> st3
                        | Some client \<Rightarrow> call SimliClose st3)
             in case audioContext st4 of
                  None \<Rightarrow> st4
                | Some s \<Rightarrow>
                    (let st5 = call ContextClose st4 in
                     if closeOk e then st5\<lparr>audioContext := None\<rparr> else st5))"

text \<open>
  \<open>startRecording\<close> from \<open>setIsRecording(true)\<close> on. The guard
  \<open>trackSampleOffset?.trackId\<close> holds when the result is not \<open>null\<close> and its track id
  is a non-empty string.
\<close>

definition begin_capture :: "env \<Rightarrow> console \<Rightarrow> console" where
  "begin_capture e st =
     (let st1 = call PlayerInterrupt (st\<lparr>isRecording := True\<rparr>)
      in if rejects e PlayerInterrupt then st1
         else
           case interruptResult e of
             None \<Rightarrow> call RecorderRecord st1
           | Some trackSampleOffset \<Rightarrow>
               (case trackId trackSampleOffset of
                  None \<Rightarrow> call RecorderRecord st1
                | Some tid \<Rightarrow>
                    if tid = [] then call RecorderRecord st1
                    else
                      let st2 = call (CancelResponse tid (offset trackSampleOffset)) st1 in
                      if rejects e (CancelResponse tid (offset trackSampleOffset)) then st2
                      else call RecorderRecord st2))"

text \<open>
  A rejected \<open>resume\<close> is not caught in \<open>startRecording\<close>: the handler stops there.
\<close>

definition startRecording :: "env \<Rightarrow> console \<Rightarrow> console" where
  "startRecording e st =
     (case audioContext st of
        None \<Rightarrow> begin_capture e (snd (initializeAudioContext e st))
      | Some s \<Rightarrow>
          if s = ''suspended'' then
            (let st1 = call ContextResume st in
             if resumeOk e then begin_capture e (st1\<lparr>audioContext := Some ''running''\<rparr>)
             else st1)
          else begin_capture e st)"

definition stopRecording :: "env \<Rightarrow> console \<Rightarrow> console" where
  "stopRecording e st =
     (let st1 = call RecorderPause (st\<lparr>isRecording := False\<rparr>)
      in if rejects e RecorderPause then st1 else call CreateResponse st1)"

definition deleteConversationItem :: "string \<Rightarrow> console \<Rightarrow> console" where
  "deleteConversationItem i st = call (DeleteItem i) st"

text \<open>
  The calls \<open>connect_session\<close> and \<open>begin_capture\<close> make, written out as lists
  (lemmas \<open>connect_session_calls\<close> and \<open>begin_capture_calls\<close>).
\<close>

definition session_calls :: "env \<Rightarrow> simli_client option \<Rightarrow> call list" where
  "session_calls e client =
     (case client of None \<Rightarrow> [] | Some c \<Rightarrow> [SimliStart, SendAudioData (replicate 6000 0)]) @
     ClientConnect #
       (if rejects e ClientConnect then []
        else RecorderBegin #
          (if rejects e RecorderBegin then []
           else PlayerConnect #
             (if rejects e PlayerConnect then []
              else GetTurnDetectionType #
                (if getTurnDetectionType e = Some ''server_vad'' then [RecorderRecord]
                 else []))))"

definition capture_calls :: "env \<Rightarrow> call list" where
  "capture_calls e =
     PlayerInterrupt #
       (if rejects e PlayerInterrupt then []
        else case interruptResult e of
               None \<Rightarrow> [RecorderRecord]
             | Some tso \<Rightarrow>
                 (case trackId tso of
                    None \<Rightarrow> [RecorderRecord]
                  | Some tid \<Rightarrow>
                      if tid = [] then [RecorderRecord]
                      else CancelResponse tid (offset tso) #
                        (if rejects e (CancelResponse tid (offset tso)) then []
                         else [RecorderRecord])))"

subsection \<open>The session's events\<close>

definition conversation_interrupted :: "console \<Rightarrow> console" where
  "conversation_interrupted st = st\<lparr>simliAudioBufferRef := []\<rparr>"

text \<open>
  \<open>new Uint8Array(samples.buffer)\<close>: the bytes of the samples, low byte first (the
  specification's wire format; typed arrays use the host's byte order).
\<close>

definition Uint8Array_of :: "int16 list \<Rightarrow> byte list" where
  "Uint8Array_of samples = concat (map (\<lambda>w. [ucast w, ucast (drop_bit 8 w)]) samples)"

definition avatar_frame :: "int16 list \<Rightarrow> byte list" where
  "avatar_frame audio = Uint8Array_of (resampleAudioData audio 24000 16000)"

definition sendAudioData :: "byte list \<Rightarrow> console \<Rightarrow> console" where
  "sendAudioData bytes st = call (SendAudioData bytes) st"

text \<open>The body of the \<open>forEach\<close> over the buffered frames.\<close>

definition send_buffered :: "console \<Rightarrow> byte list \<Rightarrow> console" where
  "send_buffered st bufferedData =
     (case simliClientRef st of None \<Rightarrow> st | Some client \<Rightarrow> sendAudioData bufferedData st)"

text \<open>The branch \<open>if (delta?.audio)\<close> of the \<open>conversation.updated\<close> handler.\<close>

definition process_audio_delta :: "int16 list \<Rightarrow> console \<Rightarrow> console" where
  "process_audio_delta audio st =
     (case simliClientRef st of
        None \<Rightarrow> st
      | Some client \<Rightarrow>
          (let resampledAudioData = resampleAudioData audio 24000 16000 in
           case isSimliDataChannelOpen st of
             (True, st1) \<Rightarrow>
               (let st2 = (if length (simliAudioBufferRef st1) > 0
                           then (foldl send_buffered st1 (simliAudioBufferRef st1))
                                  \<lparr>simliAudioBufferRef := []\<rparr>
                           else st1)
                in sendAudioData (Uint8Array_of resampledAudioData) st2)
           | (False, st1) \<Rightarrow>
               st1\<lparr>simliAudioBufferRef :=
                     simliAudioBufferRef st1 @ [Uint8Array_of resampledAudioData]\<rparr>))"

text \<open>
  After a successful decode: make sure an audio context runs, then create the audio
  element. The flag is \<open>False\<close> when \<open>resume\<close> rejected, which the handler's
  \<open>catch\<close> takes.
\<close>

definition resume_if_suspended :: "env \<Rightarrow> string option \<Rightarrow> console \<Rightarrow> bool \<times> console" where
  "resume_if_suspended e ctx st =
     (case ctx of
        None \<Rightarrow> (True, st)
      | Some s \<Rightarrow>
          if s = ''suspended'' then
            (let st1 = call ContextResume st in
             if resumeOk e then (True, st1\<lparr>audioContext := Some ''running''\<rparr>) else (False, st1))
          else (True, st))"

definition ensure_playback_context :: "env \<Rightarrow> console \<Rightarrow> bool \<times> console" where
  "ensure_playback_context e st =
     (case audioContext st of
        None \<Rightarrow>
          (case initializeAudioContext e st of (ctx, st1) \<Rightarrow> resume_if_suspended e ctx st1)
      | Some s \<Rightarrow>
          if s = ''suspended'' then resume_if_suspended e (Some s) st else (True, st))"

text \<open>
  The branch for a completed item with audio. \<open>item\<close> is a reference into the item
  store; the event always carries a live object, so a dangling reference is left alone.
\<close>

definition decode_completed_item :: "env \<Rightarrow> nat \<Rightarrow> console \<Rightarrow> console" where
  "decode_completed_item e r st =
     (case heap st r of
        None \<Rightarrow> st
      | Some it \<Rightarrow>
          (case formatted_audio (item_formatted it) of
             None \<Rightarrow> st
           | Some audio \<Rightarrow>
               if item_status it = Some ''completed'' \<and> length audio \<noteq> 0 then
                 (let st1 = call (Decode audio) st in
                  case decodeResult e of
                    None \<Rightarrow> st1
                  | Some wavFile \<Rightarrow>
                      (let st2 = st1\<lparr>heap := (heap st1)(r \<mapsto>
                                   it\<lparr>item_formatted :=
                                        (item_formatted it)\<lparr>formatted_file := Some wavFile\<rparr>\<rparr>)\<rparr>
                       in case ensure_playback_context e st2 of
                            (True, st3) \<Rightarrow> call (NewAudio (url wavFile)) st3
                          | (False, st3) \<Rightarrow> st3))
               else st))"

definition conversation_updated :: "env \<Rightarrow> nat \<Rightarrow> delta option \<Rightarrow> console \<Rightarrow> console" where
  "conversation_updated e r d st =
     (let new_items = getItems e;
          st1 = (case d of
                   None \<Rightarrow> st
                 | Some dl \<Rightarrow>
                     (case delta_audio dl of
                        None \<Rightarrow> st
                      | Some audio \<Rightarrow> process_audio_delta audio st));
          st2 = decode_completed_item e r st1
      in st2\<lparr>items := new_items\<rparr>)"

subsection \<open>The page as an event-driven system\<close>

text \<open>
  JavaScript runs one handler at a time, and a handler gives way to another event only at
  an \<open>await\<close>. Each handler touches the buffer and \<open>sendAudioData\<close> in at most one
  stretch of code, and that stretch has no \<open>await\<close> in it: the delta branch of
  \<open>conversation.updated\<close> with its synchronous \<open>forEach\<close>, the single assignment
  of \<open>conversation.interrupted\<close>, and in \<open>connectConversation\<close> the silence frame
  sent between two awaits. So for the buffer and the frames sent, each handler is one
  step. \<open>TransportChanged\<close> is the environment's move: the avatar client is created,
  or its connection and channel change state.
\<close>

datatype event =
    ConnectClicked
  | DisconnectClicked
  | TalkPressed
  | TalkReleased
  | DeleteClicked string
  | ConversationUpdated nat "delta option"
  | ConversationInterrupted
  | TransportChanged "simli_client option"

fun step :: "console \<Rightarrow> env \<times> event \<Rightarrow> console" where
  "step st (e, ConnectClicked) = connectConversation e st"
| "step st (e, DisconnectClicked) = disconnectConversation e st"
| "step st (e, TalkPressed) = startRecording e st"
| "step st (e, TalkReleased) = stopRecording e st"
| "step st (e, DeleteClicked i) = deleteConversationItem i st"
| "step st (e, ConversationUpdated r d) = conversation_updated e r d st"
| "step st (e, ConversationInterrupted) = conversation_interrupted st"
| "step st (e, TransportChanged client) = st\<lparr>simliClientRef := client\<rparr>"

definition run :: "console \<Rightarrow> (env \<times> event) list \<Rightarrow> console" where
  "run st evs = foldl step st evs"

text \<open>The frames an event brings into the system by itself.\<close>

fun frames_of_event :: "event \<Rightarrow> byte list list" where
  "frames_of_event (ConversationUpdated r (Some d)) =
     (case delta_audio d of None \<Rightarrow> [] | Some audio \<Rightarrow> [avatar_frame audio])"
| "frames_of_event ConnectClicked = [replicate 6000 0]"
| "frames_of_event ev = []"

subsection \<open>Initial state and example values\<close>

text \<open>
  The state the component starts in (\<open>useRef(null)\<close>, \<open>useRef([])\<close>, the
  \<open>useState\<close> defaults), and example values on which the theorems below are
  exercised: an avatar client whose channel is open, one that is still connecting, an
  environment in which nothing special happens and no call rejects, the event of an audio
  delta, and a completed assistant item with audio.
\<close>

definition initial_console :: console where
  "initial_console =
     \<lparr>simliClientRef = None, simliAudioBufferRef = [], audioContext = None,
      isConnected = False, isRecording = False, items = [], heap = Map.empty, calls = []\<rparr>"

definition open_client :: simli_client where
  "open_client =
     \<lparr>pc = Some \<lparr>iceConnectionState = ''connected''\<rparr>, dc = Some \<lparr>readyState = ''open''\<rparr>\<rparr>"

definition connecting_client :: simli_client where
  "connecting_client =
     \<lparr>pc = Some \<lparr>iceConnectionState = ''checking''\<rparr>, dc = Some \<lparr>readyState = ''connecting''\<rparr>\<rparr>"

definition quiet_env :: env where
  "quiet_env =
     \<lparr>audioContextSupported = True, newContextState = ''running'', resumeOk = True,
      closeOk = True, getItems = [], getTurnDetectionType = None, interruptResult = None,
      decodeResult = None, rejects = (\<lambda>c. False)\<rparr>"

definition audio_event :: "env \<Rightarrow> nat \<Rightarrow> int16 list \<Rightarrow> env \<times> event" where
  "audio_event e r audio = (e, ConversationUpdated r (Some \<lparr>delta_audio = Some audio\<rparr>))"

definition sample_item :: item where
  "sample_item =
     \<lparr>item_id = ''item_1'', item_role = Some ''assistant'', item_type = Some ''message'',
      item_status = Some ''completed'',
      item_formatted =
        \<lparr>formatted_text = Some ''hi'', formatted_transcript = Some ''hello'',
         formatted_audio = Some [1, 2, 3], formatted_tool = None, formatted_output = None,
         formatted_file = None\<rparr>\<rparr>"

text \<open>
  A state in which two of three buffered frames have gone out and the third is still in
  the buffer.
\<close>

definition two_of_three_sent :: console where
  "two_of_three_sent =
     initial_console\<lparr>simliClientRef := Some open_client,
       simliAudioBufferRef := [[3, 0]],
       calls := [SendAudioData [1, 0], SendAudioData [2, 0]]\<rparr>"

text \<open>
  An environment in which the player has track \<open>t1\<close> at sample 240 to report, and
  page states that already hold an audio context, running or suspended.
\<close>

definition playing_env :: env where
  "playing_env = quiet_env\<lparr>interruptResult := Some \<lparr>trackId = Some ''t1'', offset = 240\<rparr>\<rparr>"

definition running_console :: console where
  "running_console = initial_console\<lparr>audioContext := Some ''running''\<rparr>"

definition suspended_console :: console where
  "suspended_console = initial_console\<lparr>audioContext := Some ''suspended''\<rparr>"

text \<open>An environment in which the recorder's \<open>begin\<close> rejects.\<close>

definition no_microphone_env :: env where
  "no_microphone_env =
     quiet_env\<lparr>getTurnDetectionType := Some ''server_vad'',
       rejects := (\<lambda>c. c = RecorderBegin)\<rparr>"

section \<open>Properties of the number model\<close>

lemma bit_length_pos: "0 < n \<Longrightarrow> bit_length n = Suc (bit_length (n div 2))"
  by (subst bit_length.simps) simp

lemma bit_length_nonpos: "n \<le> 0 \<Longrightarrow> bit_length n = 0"
  by (subst bit_length.simps) simp

lemma bit_length_bounds:
  "0 < n \<Longrightarrow> 2 ^ (bit_length n - 1) \<le> n \<and> n < 2 ^ bit_length n"
proof (induction n rule: bit_length.induct)
  case (1 n)
  note pos = \<open>0 < n\<close>
  show ?case
  proof (cases "n div 2 \<le> 0")
    case True
    then have "n = 1" using pos by linarith
    then show ?thesis by (simp add: bit_length_pos bit_length_nonpos)
  next
    case False
    then have h: "0 < n div 2" by simp
    have ih: "2 ^ (bit_length (n div 2) - 1) \<le> n div 2 \<and> n div 2 < 2 ^ bit_length (n div 2)"
      using "1.IH" pos h by simp
    obtain b where b: "bit_length (n div 2) = Suc b"
      using h by (auto simp: bit_length_pos [OF h])
    have lo: "(2::int) ^ b \<le> n div 2" and hi: "n div 2 < 2 * 2 ^ b"
      using ih by (simp_all add: b)
    have "2 * 2 ^ b \<le> n" using lo by linarith
    moreover have "n < 2 * (2 * 2 ^ b)" using hi by linarith
    ultimately show ?thesis by (simp add: bit_length_pos [OF pos] b)
  qed
qed

lemma pow2_powi: "pow2 e = 2 powi e"
  by (simp add: pow2_def power_int_def field_simps)

lemma pow2_pos [simp]: "0 < pow2 e"
  by (simp add: pow2_powi)

lemma pow2_int [simp]: "pow2 (int k) = 2 ^ k"
  by (simp add: pow2_def)

lemma pow2_Suc: "pow2 (e + 1) = 2 * pow2 e"
  by (simp add: pow2_powi power_int_add)

lemma pow2_diff: "pow2 (a - b) = pow2 a / pow2 b"
  by (simp add: pow2_powi power_int_diff)

lemma pow2_neg_int: "pow2 (- int k) = 1 / 2 ^ k"
  by (simp add: pow2_powi power_int_minus field_simps)

lemma pow2_mono: "a \<le> b \<Longrightarrow> pow2 a \<le> pow2 b"
  by (simp add: pow2_powi power_int_increasing)

text \<open>The exponent is the one the definition promises.\<close>

lemma exponent_bounds:
  assumes "0 < x"
  shows "pow2 (exponent x) \<le> x \<and> x < pow2 (exponent x + 1)"
proof (cases "1 \<le> x")
  case True
  then have f: "0 < \<lfloor>x\<rfloor>" by simp
  obtain b where b: "bit_length \<lfloor>x\<rfloor> = Suc b"
    by (auto simp: bit_length_pos [OF f])
  have e: "exponent x = int b" using True by (simp add: exponent_def b)
  from bit_length_bounds [OF f] have lo: "2 ^ b \<le> \<lfloor>x\<rfloor>" and hi: "\<lfloor>x\<rfloor> < 2 * 2 ^ b"
    by (simp_all add: b)
  have "(2::rat) ^ b = of_int (2 ^ b)" by simp
  also have "\<dots> \<le> of_int \<lfloor>x\<rfloor>" using lo by (simp only: of_int_le_iff)
  also have "\<dots> \<le> x" by simp
  finally have l: "(2::rat) ^ b \<le> x" .
  have "\<lfloor>x\<rfloor> + 1 \<le> 2 * 2 ^ b" using hi by simp
  then have "(of_int (\<lfloor>x\<rfloor> + 1) :: rat) \<le> of_int (2 * 2 ^ b)" by (simp only: of_int_le_iff)
  moreover have "x < of_int (\<lfloor>x\<rfloor> + 1)" by linarith
  ultimately have u: "x < 2 * 2 ^ b" by simp
  show ?thesis using l u by (simp add: e pow2_Suc)
next
  case False
  define y where "y = 1 / x"
  have y1: "1 < y" using assms False by (simp add: y_def)
  then have c: "0 < \<lceil>y\<rceil> - 1" by linarith
  obtain m where m: "bit_length (\<lceil>y\<rceil> - 1) = Suc m"
    by (auto simp: bit_length_pos [OF c])
  have e: "exponent x = - int (Suc m)"
    using False m unfolding exponent_def y_def by simp
  from bit_length_bounds [OF c] have lo: "2 ^ m \<le> \<lceil>y\<rceil> - 1" and hi: "\<lceil>y\<rceil> - 1 < 2 * 2 ^ m"
    by (simp_all add: m)
  have "\<lceil>y\<rceil> \<le> 2 * 2 ^ m" using hi by simp
  then have "(of_int \<lceil>y\<rceil> :: rat) \<le> of_int (2 * 2 ^ m)" by (simp only: of_int_le_iff)
  then have "(of_int \<lceil>y\<rceil> :: rat) \<le> 2 * 2 ^ m" by simp
  with le_of_int_ceiling [of y] have yu: "y \<le> 2 * 2 ^ m" by (rule order_trans)
  have "(of_int (2 ^ m) :: rat) \<le> of_int (\<lceil>y\<rceil> - 1)" using lo by (simp only: of_int_le_iff)
  moreover have "of_int (\<lceil>y\<rceil> - 1) < y" by linarith
  ultimately have yl: "2 ^ m < y" by simp
  have x: "x = 1 / y" using assms by (simp add: y_def)
  have "1 / (2 * 2 ^ m) \<le> x"
    unfolding x using yu y1 by (simp add: frac_le)
  moreover have "x < 1 / 2 ^ m"
    unfolding x using yl by (simp add: frac_less2)
  moreover have "pow2 (- int (Suc m)) = 1 / (2 * 2 ^ m)"
    by (simp only: pow2_neg_int power_Suc)
  moreover have "pow2 (- int (Suc m) + 1) = 1 / 2 ^ m"
  proof -
    have "- int (Suc m) + 1 = - int m" by simp
    then show ?thesis by (simp only: pow2_neg_int)
  qed
  ultimately show ?thesis by (simp only: e)
qed

lemma round_half_even_error: "\<bar>of_int (round_half_even y) - y\<bar> \<le> 1 / 2"
proof -
  have "of_int \<lfloor>y\<rfloor> \<le> y" "y < of_int \<lfloor>y\<rfloor> + 1" by linarith+
  then show ?thesis
    by (auto simp: round_half_even_def Let_def abs_le_iff)
qed

lemma round_half_even_of_int [simp]: "round_half_even (of_int k) = k"
  by (simp add: round_half_even_def)

text \<open>Rounding moves a number by at most half a unit in the last place.\<close>

lemma binary64_error: "\<bar>binary64 x - x\<bar> \<le> \<bar>x\<bar> / 2 ^ 53"
proof (cases "x = 0")
  case True
  then show ?thesis by (simp add: binary64_def)
next
  case False
  define ulp where "ulp = pow2 (exponent \<bar>x\<bar> - 52)"
  have up: "0 < ulp" by (simp add: ulp_def)
  have ax: "0 < \<bar>x\<bar>" using False by simp
  have b: "binary64 x = of_int (round_half_even (x / ulp)) * ulp"
    using False by (simp add: binary64_def ulp_def Let_def)
  have "binary64 x - x = (of_int (round_half_even (x / ulp)) - x / ulp) * ulp"
    using up by (simp add: b field_simps)
  then have "\<bar>binary64 x - x\<bar> = \<bar>of_int (round_half_even (x / ulp)) - x / ulp\<bar> * ulp"
    using up by (simp add: abs_mult)
  also have "\<dots> \<le> 1 / 2 * ulp"
    using round_half_even_error [of "x / ulp"] up by (simp add: mult_right_mono)
  also have "\<dots> = pow2 (exponent \<bar>x\<bar>) / 2 ^ 53"
  proof -
    have "pow2 52 = 2 ^ 52" using pow2_int [of 52] by simp
    then show ?thesis using pow2_diff [of "exponent \<bar>x\<bar>" 52] by (simp add: ulp_def)
  qed
  also have "\<dots> \<le> \<bar>x\<bar> / 2 ^ 53"
    using exponent_bounds [OF ax] by (simp add: divide_right_mono)
  finally show ?thesis .
qed

text \<open>Integers below \<open>2 ^ 53\<close> in magnitude are binary64 values.\<close>

lemma binary64_of_int:
  assumes "\<bar>n\<bar> < 2 ^ 53"
  shows "binary64 (of_int n) = of_int n"
proof (cases "n = 0")
  case True
  then show ?thesis by (simp add: binary64_def)
next
  case False
  define a :: rat where "a = \<bar>of_int n\<bar>"
  define e where "e = exponent a"
  have a1: "1 \<le> a" using False by (simp add: a_def)
  have a2: "a < 2 ^ 53"
  proof -
    have "(of_int \<bar>n\<bar> :: rat) < of_int (2 ^ 53)" using assms by (simp only: of_int_less_iff)
    then show ?thesis by (simp add: a_def)
  qed
  have apos: "0 < a" using a1 by simp
  note eb = exponent_bounds [OF apos, folded e_def]
  have e0: "0 \<le> e"
  proof (rule ccontr)
    assume "\<not> 0 \<le> e"
    then have "e + 1 \<le> 0" by simp
    then have "pow2 (e + 1) \<le> pow2 0" by (rule pow2_mono)
    with eb a1 show False by (simp add: pow2_def)
  qed
  have e52: "e \<le> 52"
  proof (rule ccontr)
    assume "\<not> e \<le> 52"
    then have "53 \<le> e" by simp
    then have "pow2 53 \<le> pow2 e" by (rule pow2_mono)
    moreover have "pow2 53 = 2 ^ 53" using pow2_int [of 53] by simp
    ultimately show False using eb a2 by simp
  qed
  obtain k where k: "52 - e = int k" using e52 by (metis nonneg_int_cases diff_ge_0_iff_ge)
  have ulp: "pow2 (e - 52) = 1 / 2 ^ k"
  proof -
    have "e - 52 = - int k" using k by linarith
    then show ?thesis by (simp only: pow2_neg_int)
  qed
  have q: "of_int n / pow2 (e - 52) = (of_int (n * 2 ^ k) :: rat)"
    by (simp add: ulp)
  have nz: "(of_int n :: rat) \<noteq> 0" using False by simp
  have "binary64 (of_int n) = of_int (round_half_even (of_int n / pow2 (e - 52))) * pow2 (e - 52)"
    using nz by (simp add: binary64_def Let_def e_def a_def)
  also have "\<dots> = of_int (n * 2 ^ k) * (1 / 2 ^ k)"
    unfolding q round_half_even_of_int by (simp add: ulp)
  also have "\<dots> = of_int n" by simp
  finally show ?thesis .
qed

lemma binary64_of_nat: "n < 2 ^ 53 \<Longrightarrow> binary64 (of_nat n) = of_nat n"
  using binary64_of_int [of "int n"] by simp

lemma binary64_lower: "0 \<le> x \<Longrightarrow> x - x / 2 ^ 53 \<le> binary64 x"
proof -
  assume "0 \<le> x"
  then have "\<bar>binary64 x - x\<bar> \<le> x / 2 ^ 53" using binary64_error [of x] by simp
  then show ?thesis by linarith
qed

lemma binary64_upper: "0 \<le> x \<Longrightarrow> binary64 x \<le> x + x / 2 ^ 53"
proof -
  assume "0 \<le> x"
  then have "\<bar>binary64 x - x\<bar> \<le> x / 2 ^ 53" using binary64_error [of x] by simp
  then show ?thesis by linarith
qed

lemma binary64_nonneg: "0 \<le> x \<Longrightarrow> 0 \<le> binary64 x"
  using binary64_lower [of x] by simp

lemma binary64_pos: "0 < x \<Longrightarrow> 0 < binary64 x"
  using binary64_lower [of x] by simp

section \<open>Properties of the resampler\<close>

lemma resample_loop_step:
  "i < n \<Longrightarrow> resample_loop inp r n i (out, rd) =
     resample_loop inp r n (Suc i)
       (out[i := fst (interpolated inp r i rd)], snd (interpolated inp r i rd))"
  by (subst resample_loop.simps) (simp add: case_prod_beta)

lemma resample_loop_done:
  "\<not> i < n \<Longrightarrow> resample_loop inp r n i (out, rd) = (out, rd)"
  by (subst resample_loop.simps) simp

text \<open>
  The reads of one loop body are its lower and its upper index, in that order, and the
  value stored does not depend on what was read before.
\<close>

lemma interpolated_snd:
  "snd (interpolated inp r i rd) = rd @ [lowerIndex r i, upperIndex inp r i]"
  by (simp add: interpolated_def read_input_def Let_def)

lemma interpolated_fst: "fst (interpolated inp r i rd) = fst (interpolated inp r i [])"
  by (simp add: interpolated_def read_input_def Let_def)

lemma resample_loop_fst:
  "i \<le> n \<Longrightarrow> length out = n \<Longrightarrow>
   fst (resample_loop inp r n i (out, rd)) =
     take i out @ map (\<lambda>j. fst (interpolated inp r j [])) [i..<n]"
proof (induction inp r n i "(out, rd)" arbitrary: out rd rule: resample_loop.induct)
  case (1 inp r n i out rd)
  show ?case
  proof (cases "i < n")
    case True
    obtain v rd' where p: "interpolated inp r i rd = (v, rd')"
      by (cases "interpolated inp r i rd")
    have v: "v = fst (interpolated inp r i [])"
      using interpolated_fst [of inp r i rd] by (simp add: p)
    have "fst (resample_loop inp r n i (out, rd)) =
          fst (resample_loop inp r n (Suc i) (out[i := v], rd'))"
      using True by (simp add: resample_loop_step p)
    also have "\<dots> = take (Suc i) (out[i := v]) @ map (\<lambda>j. fst (interpolated inp r j [])) [Suc i..<n]"
      using True "1.prems" p by (intro "1.hyps") auto
    also have "take (Suc i) (out[i := v]) = take i out @ [v]"
      using True "1.prems" by (simp add: take_Suc_conv_app_nth)
    finally show ?thesis using True by (simp add: upt_conv_Cons v)
  next
    case False
    with "1.prems" show ?thesis by (simp add: resample_loop_done)
  qed
qed

lemma resample_loop_snd:
  "snd (resample_loop inp r n i (out, rd)) =
     rd @ concat (map (\<lambda>j. [lowerIndex r j, upperIndex inp r j]) [i..<n])"
proof (induction inp r n i "(out, rd)" arbitrary: out rd rule: resample_loop.induct)
  case (1 inp r n i out rd)
  show ?case
  proof (cases "i < n")
    case True
    obtain v rd' where p: "interpolated inp r i rd = (v, rd')"
      by (cases "interpolated inp r i rd")
    have rd': "rd' = rd @ [lowerIndex r i, upperIndex inp r i]"
      using interpolated_snd [of inp r i rd] by (simp add: p)
    have "snd (resample_loop inp r n i (out, rd)) =
          snd (resample_loop inp r n (Suc i) (out[i := v], rd'))"
      using True by (simp add: resample_loop_step p)
    also have "\<dots> = rd' @ concat (map (\<lambda>j. [lowerIndex r j, upperIndex inp r j]) [Suc i..<n])"
      using True p by (intro "1.hyps") auto
    finally show ?thesis using True by (simp add: upt_conv_Cons rd')
  next
    case False
    then show ?thesis by (simp add: resample_loop_done)
  qed
qed

lemma sampleRateRatio_pos:
  "0 < inR \<Longrightarrow> 0 < outR \<Longrightarrow> 0 < sampleRateRatio inR outR"
  by (simp add: sampleRateRatio_def binary64_pos)

lemma outputLength_nonneg:
  assumes "0 < inR" and "0 < outR"
  shows "0 \<le> outputLength len inR outR"
proof -
  have "0 \<le> of_nat len / sampleRateRatio inR outR"
    using sampleRateRatio_pos [OF assms] by simp
  then have "0 \<le> binary64 (of_nat len / sampleRateRatio inR outR)"
    by (rule binary64_nonneg)
  then show ?thesis by (simp add: outputLength_def Math_round_def)
qed

lemma resampleAudioData_eq:
  "0 < inR \<Longrightarrow> 0 < outR \<Longrightarrow>
   resampleAudioData inp inR outR =
     map (\<lambda>j. fst (interpolated inp (sampleRateRatio inR outR) j []))
       [0..<nat (outputLength (length inp) inR outR)]"
  by (simp add: resampleAudioData_def resample_run_def Let_def resample_loop_fst)

lemma length_resampleAudioData:
  "0 < inR \<Longrightarrow> 0 < outR \<Longrightarrow>
   length (resampleAudioData inp inR outR) = nat (outputLength (length inp) inR outR)"
  by (simp add: resampleAudioData_eq)

lemma resample_reads_eq:
  "resample_reads inp inR outR =
     concat (map (\<lambda>j. [lowerIndex (sampleRateRatio inR outR) j,
                       upperIndex inp (sampleRateRatio inR outR) j])
       [0..<nat (outputLength (length inp) inR outR)])"
  by (simp add: resample_reads_def resample_run_def Let_def resample_loop_snd)

lemma Math_round_near:
  assumes "\<bar>x - y\<bar> < 1"
  shows "\<bar>Math_round x - Math_round y\<bar> \<le> 1"
proof -
  have fx: "of_int (Math_round x) \<le> x + 1 / 2" "x + 1 / 2 < of_int (Math_round x) + 1"
    unfolding Math_round_def by linarith+
  have fy: "of_int (Math_round y) \<le> y + 1 / 2" "y + 1 / 2 < of_int (Math_round y) + 1"
    unfolding Math_round_def by linarith+
  have "(of_int (Math_round x - Math_round y) :: rat) < 2"
    using fx fy assms by (simp; linarith)
  then have a: "Math_round x - Math_round y < 2" by (simp only: of_int_less_numeral_iff)
  have "(of_int (Math_round y - Math_round x) :: rat) < 2"
    using fx fy assms by (simp; linarith)
  then have b: "Math_round y - Math_round x < 2" by (simp only: of_int_less_numeral_iff)
  from a b show ?thesis by linarith
qed

text \<open>
  The two roundings of the length computation move the quotient by less than a half, as
  long as the exact quotient is at most \<open>2 ^ 50\<close>.
\<close>

lemma quotient_error:
  assumes inR: "0 < inR" and outR: "0 < outR"
    and q: "of_nat len * outR / inR \<le> 2 ^ 50"
  shows "\<bar>binary64 (of_nat len / sampleRateRatio inR outR) - of_nat len * outR / inR\<bar> < 1 / 2"
proof -
  define L :: rat where "L = of_nat len"
  define r where "r = inR / outR"
  define r' where "r' = sampleRateRatio inR outR"
  define a where "a = L / r'"
  define q where "q = L * outR / inR"
  define q' where "q' = binary64 a"
  have L0: "0 \<le> L" by (simp add: L_def)
  have r0: "0 < r" using inR outR by (simp add: r_def)
  have r'0: "0 < r'" using sampleRateRatio_pos [OF inR outR] by (simp add: r'_def)
  have a0: "0 \<le> a" using L0 r'0 by (simp add: a_def)
  have qr: "q * r = L" using inR outR by (simp add: q_def r_def)
  have ar: "a * r' = L" using r'0 by (simp add: a_def)
  have r'lo: "r - r / 2 ^ 53 \<le> r'" and r'hi: "r' \<le> r + r / 2 ^ 53"
    using binary64_lower [of r] binary64_upper [of r] r0
    by (simp_all add: r'_def sampleRateRatio_def r_def)
  have "a * (r - r / 2 ^ 53) \<le> a * r'" using r'lo a0 by (rule mult_left_mono)
  then have "(a - a / 2 ^ 53) * r \<le> q * r" by (simp add: ar qr algebra_simps)
  then have lo: "a - a / 2 ^ 53 \<le> q" using r0 by (simp only: mult_le_cancel_right; simp)
  have "a * r' \<le> a * (r + r / 2 ^ 53)" using r'hi a0 by (rule mult_left_mono)
  then have "q * r \<le> (a + a / 2 ^ 53) * r" by (simp add: ar qr algebra_simps)
  then have hi: "q \<le> a + a / 2 ^ 53" using r0 by (simp only: mult_le_cancel_right; simp)
  have q'lo: "a - a / 2 ^ 53 \<le> q'" and q'hi: "q' \<le> a + a / 2 ^ 53"
    using binary64_lower [OF a0] binary64_upper [OF a0] by (simp_all add: q'_def)
  have qb: "q \<le> 2 ^ 50" using q by (simp add: q_def L_def)
  define d where "d = a / 2 ^ 53"
  have ad: "a = 9007199254740992 * d" by (simp add: d_def)
  have d0: "0 \<le> d" using a0 by (simp add: d_def)
  have lo': "9007199254740992 * d - d \<le> q" and hi': "q \<le> 9007199254740992 * d + d"
    and q'lo': "9007199254740992 * d - d \<le> q'" and q'hi': "q' \<le> 9007199254740992 * d + d"
    using lo hi q'lo q'hi unfolding d_def [symmetric] by (simp_all add: ad)
  have qb': "q \<le> 1125899906842624" using qb by simp
  have "d < 1 / 4" using lo' qb' by linarith
  then have "\<bar>q' - q\<bar> < 1 / 2" using lo' hi' q'lo' q'hi' by linarith
  then show ?thesis by (simp add: q'_def q_def a_def L_def r'_def)
qed

text \<open>
  Claim C1, as the code has it: for positive rates and an exact quotient
  \<open>inputLength * outputRate / inputRate\<close> of at most \<open>2 ^ 50\<close>, the output has
  \<open>Math.round(q)\<close> samples, where \<open>q\<close> is the binary64 quotient of the input length
  by the binary64 ratio of the rates. That count is within one of the exact
  \<open>round(inputLength * outputRate / inputRate)\<close>, and it need not be equal: 120
  samples from 24000 Hz to 44100 Hz give 220 samples, where the exact quotient 220.5
  rounds to 221. At 24000 Hz to 16000 Hz, 480 samples give 320.
\<close>

theorem resample_length_within_one:
  assumes "0 < inputSampleRate" and "0 < outputSampleRate"
    and "of_nat (length inputData) * outputSampleRate / inputSampleRate \<le> 2 ^ 50"
  shows "int (length (resampleAudioData inputData inputSampleRate outputSampleRate)) =
           Math_round (binary64 (of_nat (length inputData) /
             binary64 (inputSampleRate / outputSampleRate))) \<and>
         \<bar>int (length (resampleAudioData inputData inputSampleRate outputSampleRate)) -
            Math_round (of_nat (length inputData) * outputSampleRate / inputSampleRate)\<bar> \<le> 1"
proof -
  let ?n = "int (length (resampleAudioData inputData inputSampleRate outputSampleRate))"
  let ?q' = "binary64 (of_nat (length inputData) /
               sampleRateRatio inputSampleRate outputSampleRate)"
  let ?q = "of_nat (length inputData) * outputSampleRate / inputSampleRate"
  have n: "?n = Math_round ?q'"
    using assms(1,2) outputLength_nonneg [OF assms(1,2), of "length inputData"]
    by (simp add: length_resampleAudioData outputLength_def)
  have "\<bar>Math_round ?q' - Math_round ?q\<bar> \<le> 1"
  proof -
    have "\<bar>?q' - ?q\<bar> < 1 / 2" using quotient_error [OF assms] .
    then have "\<bar>?q' - ?q\<bar> < 1" by linarith
    then show ?thesis by (rule Math_round_near)
  qed
  with n show ?thesis by (simp add: sampleRateRatio_def)
qed

lemma outputLength_120: "outputLength 120 24000 44100 = 220"
  by code_simp

lemma outputLength_480: "outputLength 480 24000 16000 = 320"
  by code_simp

theorem resample_length_counterexample:
  "(0::rat) < 24000 \<and> (0::rat) < 44100 \<and>
   length (resampleAudioData (replicate 120 0) 24000 44100) = 220 \<and>
   Math_round (of_nat (length (replicate 120 (0::int16))) / (24000 / 44100)) = 221 \<and>
   Math_round (of_nat (length (replicate 120 (0::int16))) * 44100 / 24000) = 221"
proof -
  have "length (resampleAudioData (replicate 120 0) 24000 44100) = 220"
    by (simp add: length_resampleAudioData outputLength_120)
  moreover have "Math_round (120 / (24000 / 44100)) = 221"
    unfolding Math_round_def by (rule floor_unique) simp_all
  moreover have "Math_round (120 * 44100 / 24000) = 221"
    unfolding Math_round_def by (rule floor_unique) simp_all
  ultimately show ?thesis by simp
qed

theorem resample_length_within_one_witness:
  "(0::rat) < 24000 \<and> (0::rat) < 16000 \<and> (0::rat) < 44100 \<and>
   of_nat (length (replicate 480 (0::int16))) * 16000 / 24000 \<le> (2::rat) ^ 50 \<and>
   length (resampleAudioData (replicate 480 0) 24000 16000) = 320 \<and>
   of_nat (length (replicate 120 (0::int16))) * 44100 / 24000 \<le> (2::rat) ^ 50 \<and>
   \<bar>int (length (resampleAudioData (replicate 120 0) 24000 44100)) - 221\<bar> \<le> 1"
proof -
  have g: "of_nat (length (replicate 480 (0::int16))) * 16000 / 24000 \<le> (2::rat) ^ 50"
    by simp
  have a: "int (length (resampleAudioData (replicate 480 0) 24000 16000)) =
        Math_round (binary64 (of_nat (length (replicate 480 (0::int16))) /
          binary64 (24000 / 16000)))"
    using resample_length_within_one [of 24000 16000 "replicate 480 0"] g by simp
  have "length (resampleAudioData (replicate 480 0) 24000 16000) = 320"
    using a outputLength_480 by (simp add: outputLength_def sampleRateRatio_def)
  moreover have h: "of_nat (length (replicate 120 (0::int16))) * 44100 / 24000 \<le> (2::rat) ^ 50"
    by simp
  moreover have r: "Math_round (of_nat (length (replicate 120 (0::int16))) * 44100 / 24000) = 221"
    unfolding Math_round_def by (rule floor_unique) simp_all
  moreover have "\<bar>int (length (resampleAudioData (replicate 120 0) 24000 44100)) - 221\<bar> \<le> 1"
  proof -
    have p: "(0::rat) < 24000" "(0::rat) < 44100" by simp_all
    from resample_length_within_one [OF p h, THEN conjunct2]
    show ?thesis unfolding r .
  qed
  ultimately show ?thesis using g by simp
qed

lemma sint16_bound: "\<bar>sint (w :: int16)\<bar> < 2 ^ 53"
proof -
  have "- (2 ^ 15) \<le> sint w" "sint w < 2 ^ 15"
    using sint_ge [of w] sint_lt [of w] by simp_all
  then show ?thesis by simp
qed

lemma binary64_sint [simp]: "binary64 (signed (w :: int16)) = signed w"
  using binary64_of_int [OF sint16_bound, of w] by simp

lemma binary64_0 [simp]: "binary64 0 = 0"
  by (simp add: binary64_def)

lemma binary64_1 [simp]: "binary64 1 = 1"
  using binary64_of_int [of 1] by simp

lemma floor_signed: "\<lfloor>signed (w :: int16) :: rat\<rfloor> = sint w"
  using floor_of_int [of "sint w", where ?'a = rat] by simp

lemma ceiling_signed: "\<lceil>signed (w :: int16) :: rat\<rceil> = sint w"
  using ceiling_of_int [of "sint w", where ?'a = rat] by simp

lemma floor_rat_one_half: "\<lfloor>1 / 2 :: rat\<rfloor> = 0"
  by (rule floor_unique) simp_all

lemma interpolated_ratio_one:
  assumes "i < length inp" and "length inp < 2 ^ 53"
  shows "fst (interpolated inp 1 i rd) = inp ! i"
proof -
  have i53: "i < 2 ^ 53" using assms by simp
  have s: "sourceIndex 1 i = of_nat i"
    by (simp add: sourceIndex_def binary64_of_nat [OF i53])
  have l: "lowerIndex 1 i = int i"
    by (simp add: lowerIndex_def Math_floor_def s)
  have u: "upperIndex inp 1 i = min (int i + 1) (int (length inp) - 1)"
    by (simp add: upperIndex_def l)
  have "0 \<le> upperIndex inp 1 i" "upperIndex inp 1 i < int (length inp)"
    using assms(1) unfolding u by auto
  then obtain hi where hi: "typed_get inp (upperIndex inp 1 i) = Some hi"
    by (simp add: typed_get_def)
  have lo: "typed_get inp (int i) = Some (inp ! i)"
    using assms(1) by (simp add: typed_get_def)
  show ?thesis
    by (simp add: interpolated_def read_input_def Let_def lo hi s l ToInt16_def
          floor_signed ceiling_signed)
qed

text \<open>
  Claim C5: with equal input and output rates the output is the input, sample for sample.
  The input is a typed array, so it has fewer than \<open>2 ^ 53\<close> elements.
\<close>

theorem resample_same_rate:
  assumes "0 < sampleRate" and "length inputData < 2 ^ 53"
  shows "resampleAudioData inputData sampleRate sampleRate = inputData"
proof -
  have r: "sampleRateRatio sampleRate sampleRate = 1"
    using assms(1) by (simp add: sampleRateRatio_def)
  have n: "nat (outputLength (length inputData) sampleRate sampleRate) = length inputData"
    by (simp add: outputLength_def r binary64_of_nat [OF assms(2)] Math_round_def
          floor_rat_one_half)
  have "resampleAudioData inputData sampleRate sampleRate =
        map (\<lambda>j. fst (interpolated inputData 1 j [])) [0..<length inputData]"
    using assms(1) by (simp add: resampleAudioData_eq n r)
  also have "\<dots> = map (\<lambda>i. inputData ! i) [0..<length inputData]"
    using assms(2) by (intro map_cong) (simp_all add: interpolated_ratio_one)
  also have "\<dots> = inputData" by (rule map_nth)
  finally show ?thesis .
qed

theorem resample_same_rate_witness:
  "(0::rat) < 24000 \<and> length [5, -3, 32767, -32768 :: int16] < 2 ^ 53 \<and>
   resampleAudioData [5, -3, 32767, -32768] 24000 24000 = [5, -3, 32767, -32768]"
  using resample_same_rate [of 24000 "[5, -3, 32767, -32768]"] by simp

lemma lowerIndex_nonneg: "0 < r \<Longrightarrow> 0 \<le> lowerIndex r i"
proof -
  assume "0 < r"
  then have "0 \<le> of_nat i * r" by simp
  then have "0 \<le> binary64 (of_nat i * r)" by (rule binary64_nonneg)
  then show ?thesis by (simp add: lowerIndex_def Math_floor_def sourceIndex_def)
qed

text \<open>
  The rounded source index of every iteration stays below the input length, as long as
  the output has at most \<open>2 ^ 50\<close> samples: the rounding of the quotient, of the product
  and the half sample that \<open>Math.round\<close> may add together stay below half a ratio.
\<close>

lemma lowerIndex_in_range:
  assumes r: "0 < r" and len: "0 < len"
    and i: "int i < Math_round (binary64 (of_nat len / r))"
    and n: "Math_round (binary64 (of_nat len / r)) \<le> 2 ^ 50"
  shows "lowerIndex r i < int len"
proof -
  define L :: rat where "L = of_nat len"
  define a where "a = L / r"
  define q' where "q' = binary64 a"
  define x where "x = of_nat i * r"
  define s where "s = binary64 x"
  have L0: "0 < L" using len by (simp add: L_def)
  have a0: "0 \<le> a" using L0 r by (simp add: a_def)
  have ar: "a * r = L" using r by (simp add: a_def)
  have x0: "0 \<le> x" using r by (simp add: x_def)
  have q'hi: "q' \<le> a + a / 2 ^ 53" and q'lo: "a - a / 2 ^ 53 \<le> q'"
    using binary64_upper [OF a0] binary64_lower [OF a0] by (simp_all add: q'_def)
  have shi: "s \<le> x + x / 2 ^ 53"
    using binary64_upper [OF x0] by (simp add: s_def)
  have fl: "of_int (Math_round q') \<le> q' + 1 / 2" "q' + 1 / 2 < of_int (Math_round q') + 1"
    unfolding Math_round_def by linarith+
  have "int i + 1 \<le> Math_round q'" using i by (simp add: q'_def a_def L_def)
  then have "(of_int (int i + 1) :: rat) \<le> of_int (Math_round q')" by (simp only: of_int_le_iff)
  then have i1: "of_nat i + 1 / 2 \<le> q'" using fl(1) by simp
  have "(of_int (Math_round q') :: rat) \<le> of_int (2 ^ 50)"
    using n by (simp only: of_int_le_iff q'_def a_def L_def)
  then have N: "q' < 1125899906842624 + 1 / 2" using fl(2) by simp
  have "(of_nat i + 1 / 2) * r \<le> (a + a / 2 ^ 53) * r"
    using i1 q'hi r by (intro mult_right_mono) simp_all
  then have E1: "x + r / 2 \<le> L + L / 9007199254740992"
    using ar by (simp add: x_def algebra_simps)
  have "(a - a / 2 ^ 53) * r < (1125899906842624 + 1 / 2) * r"
    using q'lo N r by (intro mult_strict_right_mono) simp_all
  then have E2: "L - L / 9007199254740992 < 1125899906842624 * r + r / 2"
    using ar by (simp add: algebra_simps)
  have E3: "s \<le> x + x / 9007199254740992" using shi by simp
  have "s < L" using E1 E2 E3 L0 x0 by linarith
  then have "s < of_int (int len)" by (simp add: L_def)
  then show ?thesis
    unfolding lowerIndex_def Math_floor_def sourceIndex_def s_def x_def
    by (simp only: floor_less_iff)
qed

lemma upperIndex_in_range:
  assumes "0 < r" and "inp \<noteq> []"
  shows "0 \<le> upperIndex inp r i \<and> upperIndex inp r i \<le> int (length inp) - 1"
  using assms lowerIndex_nonneg [of r i] by (cases inp) (simp_all add: upperIndex_def)

lemma outputLength_empty: "outputLength 0 inR outR = 0"
  by (simp add: outputLength_def Math_round_def floor_rat_one_half)

text \<open>
  Claim C6: for a non-empty input, positive rates and an output of at most \<open>2 ^ 50\<close>
  samples, every index the loop reads lies in \<open>0 .. length - 1\<close>, so no read yields
  \<open>undefined\<close>; the upper neighbour never exceeds the last valid index; and an empty
  input gives an empty output without any read.
\<close>

theorem resample_reads_in_bounds:
  assumes "0 < inputSampleRate" and "0 < outputSampleRate"
    and "length (resampleAudioData inputData inputSampleRate outputSampleRate) \<le> 2 ^ 50"
  shows "(inputData \<noteq> [] \<longrightarrow>
           (\<forall>i < length (resampleAudioData inputData inputSampleRate outputSampleRate).
              0 \<le> lowerIndex (sampleRateRatio inputSampleRate outputSampleRate) i \<and>
              lowerIndex (sampleRateRatio inputSampleRate outputSampleRate) i
                < int (length inputData) \<and>
              0 \<le> upperIndex inputData (sampleRateRatio inputSampleRate outputSampleRate) i \<and>
              upperIndex inputData (sampleRateRatio inputSampleRate outputSampleRate) i
                \<le> int (length inputData) - 1) \<and>
           (\<forall>k \<in> set (resample_reads inputData inputSampleRate outputSampleRate).
              0 \<le> k \<and> k < int (length inputData) \<and> typed_get inputData k \<noteq> None)) \<and>
         resampleAudioData [] inputSampleRate outputSampleRate = [] \<and>
         resample_reads [] inputSampleRate outputSampleRate = []"
proof -
  let ?r = "sampleRateRatio inputSampleRate outputSampleRate"
  let ?n = "nat (outputLength (length inputData) inputSampleRate outputSampleRate)"
  have r: "0 < ?r" using assms(1,2) by (rule sampleRateRatio_pos)
  have len: "length (resampleAudioData inputData inputSampleRate outputSampleRate) = ?n"
    using assms(1,2) by (rule length_resampleAudioData)
  have nn: "0 \<le> outputLength (length inputData) inputSampleRate outputSampleRate"
    using assms(1,2) by (rule outputLength_nonneg)
  have small: "Math_round (binary64 (of_nat (length inputData) / ?r)) \<le> 2 ^ 50"
  proof -
    have "int ?n \<le> int (2 ^ 50)" using assms(3) unfolding len by (simp only: of_nat_le_iff)
    then show ?thesis using nn by (simp add: outputLength_def)
  qed
  have lo: "0 \<le> lowerIndex ?r i \<and> lowerIndex ?r i < int (length inputData)"
    if "i < ?n" and ne: "inputData \<noteq> []" for i
  proof -
    have "int i < Math_round (binary64 (of_nat (length inputData) / ?r))"
      using that by (simp add: outputLength_def)
    moreover have "0 < length inputData" using ne by simp
    ultimately show ?thesis
      using lowerIndex_in_range [OF r _ _ small] lowerIndex_nonneg [OF r] by blast
  qed
  have idx: "\<forall>i < length (resampleAudioData inputData inputSampleRate outputSampleRate).
              0 \<le> lowerIndex ?r i \<and> lowerIndex ?r i < int (length inputData) \<and>
              0 \<le> upperIndex inputData ?r i \<and>
              upperIndex inputData ?r i \<le> int (length inputData) - 1"
    if "inputData \<noteq> []"
    using lo that upperIndex_in_range [OF r that] unfolding len by blast
  have rd: "\<forall>k \<in> set (resample_reads inputData inputSampleRate outputSampleRate).
              0 \<le> k \<and> k < int (length inputData) \<and> typed_get inputData k \<noteq> None"
    if ne: "inputData \<noteq> []"
  proof
    fix k assume "k \<in> set (resample_reads inputData inputSampleRate outputSampleRate)"
    then obtain i where i: "i < ?n" and k: "k = lowerIndex ?r i \<or> k = upperIndex inputData ?r i"
      by (auto simp: resample_reads_eq)
    have "0 \<le> k \<and> k < int (length inputData)"
      using k lo [OF i ne] upperIndex_in_range [OF r ne, of i] by auto
    then show "0 \<le> k \<and> k < int (length inputData) \<and> typed_get inputData k \<noteq> None"
      by (simp add: typed_get_def)
  qed
  have "resampleAudioData [] inputSampleRate outputSampleRate = []"
    using assms(1,2) by (simp add: resampleAudioData_eq outputLength_empty)
  moreover have "resample_reads [] inputSampleRate outputSampleRate = []"
    by (simp add: resample_reads_eq outputLength_empty)
  ultimately show ?thesis using idx rd by blast
qed

lemma outputLength_4: "outputLength 4 24000 16000 = 3"
  by code_simp

lemma resample_reads_1234: "resample_reads [1, 2, 3, 4] 24000 16000 = [0, 1, 1, 2, 3, 3]"
  by code_simp

lemma lowerIndex_clamped: "lowerIndex (sampleRateRatio 24000 16000) 2 + 1 = 4"
  by code_simp

theorem resample_reads_in_bounds_witness:
  "(0::rat) < 24000 \<and> (0::rat) < 16000 \<and>
   length (resampleAudioData [1, 2, 3, 4] 24000 16000) \<le> 2 ^ 50 \<and>
   [1, 2, 3, 4 :: int16] \<noteq> [] \<and>
   resample_reads [1, 2, 3, 4] 24000 16000 = [0, 1, 1, 2, 3, 3] \<and>
   lowerIndex (sampleRateRatio 24000 16000) 2 + 1 = 4 \<and>
   list_all (\<lambda>k. 0 \<le> k \<and> k < 4 \<and> typed_get [1, 2, 3, 4] k \<noteq> None)
     (resample_reads [1, 2, 3, 4] 24000 16000) \<and>
   resample_reads [] 24000 16000 = []"
proof -
  have p: "(0::rat) < 24000" "(0::rat) < 16000" by simp_all
  have "length [1, 2, 3, 4 :: int16] = 4" by simp
  then have "length (resampleAudioData [1, 2, 3, 4] 24000 16000) = 3"
    by (simp only: length_resampleAudioData [OF p] outputLength_4; simp)
  then have s: "length (resampleAudioData [1, 2, 3, 4] 24000 16000) \<le> 2 ^ 50"
    by simp
  note t = resample_reads_in_bounds [OF p s]
  from t have "list_all (\<lambda>k. 0 \<le> k \<and> k < 4 \<and> typed_get [1, 2, 3, 4] k \<noteq> None)
     (resample_reads [1, 2, 3, 4] 24000 16000)"
    by (simp add: list_all_iff)
  moreover from t have "resample_reads [] 24000 16000 = []" by blast
  ultimately show ?thesis
    using s resample_reads_1234 lowerIndex_clamped by simp
qed

section \<open>Properties of the handlers\<close>

lemma sent_append: "sent (xs @ ys) = sent xs @ sent ys"
  by (induction xs rule: sent.induct) simp_all

lemma sent_map_SendAudioData: "sent (map SendAudioData bs) = bs"
  by (induction bs) simp_all

lemma call_simps [simp]:
  "calls (call c st) = calls st @ [c]"
  "simliClientRef (call c st) = simliClientRef st"
  "simliAudioBufferRef (call c st) = simliAudioBufferRef st"
  "audioContext (call c st) = audioContext st"
  "heap (call c st) = heap st"
  "items (call c st) = items st"
  by (simp_all add: call_def)

lemma gate_snd: "snd (isSimliDataChannelOpen st) = st"
  by (simp add: isSimliDataChannelOpen_def split: option.splits)

lemma gate_fst:
  "fst (isSimliDataChannelOpen st) \<longleftrightarrow>
     (\<exists>client p d. simliClientRef st = Some client \<and> pc client = Some p \<and>
        iceConnectionState p = ''connected'' \<and> dc client = Some d \<and> readyState d = ''open'')"
  by (auto simp: isSimliDataChannelOpen_def split: option.splits)

lemma gate_pair: "isSimliDataChannelOpen st = (fst (isSimliDataChannelOpen st), st)"
  by (metis gate_snd prod.collapse)

lemma foldl_send_buffered:
  "simliClientRef st = Some client \<Longrightarrow>
   foldl send_buffered st bs = st\<lparr>calls := calls st @ map SendAudioData bs\<rparr>"
proof (induction bs arbitrary: st)
  case Nil
  then show ?case by simp
next
  case (Cons b bs)
  have "simliClientRef (send_buffered st b) = Some client"
    using Cons.prems by (simp add: send_buffered_def sendAudioData_def)
  from Cons.IH [OF this] show ?case
    using Cons.prems by (simp add: send_buffered_def sendAudioData_def call_def)
qed

lemma process_audio_delta_no_client:
  "simliClientRef st = None \<Longrightarrow> process_audio_delta audio st = st"
  by (simp add: process_audio_delta_def)

lemma process_audio_delta_closed:
  assumes "simliClientRef st = Some client" and "\<not> fst (isSimliDataChannelOpen st)"
  shows "process_audio_delta audio st =
           st\<lparr>simliAudioBufferRef := simliAudioBufferRef st @ [avatar_frame audio]\<rparr>"
proof -
  have "isSimliDataChannelOpen st = (False, st)"
    using assms(2) gate_pair [of st] by simp
  then show ?thesis
    using assms(1) by (simp add: process_audio_delta_def avatar_frame_def)
qed

lemma process_audio_delta_open:
  assumes "simliClientRef st = Some client" and "fst (isSimliDataChannelOpen st)"
  shows "process_audio_delta audio st =
           st\<lparr>simliAudioBufferRef := [],
               calls := calls st @ map SendAudioData (simliAudioBufferRef st) @
                          [SendAudioData (avatar_frame audio)]\<rparr>"
proof -
  have g: "isSimliDataChannelOpen st = (True, st)"
    using assms(2) gate_pair [of st] by simp
  show ?thesis
  proof (cases "simliAudioBufferRef st")
    case Nil
    then show ?thesis
      using assms(1) g
      by (simp add: process_audio_delta_def avatar_frame_def sendAudioData_def call_def)
  next
    case (Cons b bs)
    then show ?thesis
      using assms(1) g foldl_send_buffered [OF assms(1), of "simliAudioBufferRef st"]
      by (simp add: process_audio_delta_def avatar_frame_def sendAudioData_def call_def)
  qed
qed

lemma initializeAudioContext_frame:
  "simliClientRef (snd (initializeAudioContext e st)) = simliClientRef st"
  "simliAudioBufferRef (snd (initializeAudioContext e st)) = simliAudioBufferRef st"
  "heap (snd (initializeAudioContext e st)) = heap st"
  "sent (calls (snd (initializeAudioContext e st))) = sent (calls st)"
  by (simp_all add: initializeAudioContext_def Let_def sent_append)

lemma resume_if_suspended_frame:
  "simliClientRef (snd (resume_if_suspended e ctx st)) = simliClientRef st"
  "simliAudioBufferRef (snd (resume_if_suspended e ctx st)) = simliAudioBufferRef st"
  "heap (snd (resume_if_suspended e ctx st)) = heap st"
  "sent (calls (snd (resume_if_suspended e ctx st))) = sent (calls st)"
  by (simp_all add: resume_if_suspended_def Let_def sent_append split: option.splits)

lemma ensure_playback_context_frame:
  "simliClientRef (snd (ensure_playback_context e st)) = simliClientRef st"
  "simliAudioBufferRef (snd (ensure_playback_context e st)) = simliAudioBufferRef st"
  "heap (snd (ensure_playback_context e st)) = heap st"
  "sent (calls (snd (ensure_playback_context e st))) = sent (calls st)"
  by (simp_all add: ensure_playback_context_def resume_if_suspended_frame
        initializeAudioContext_frame split: option.splits prod.splits)
     (metis initializeAudioContext_frame resume_if_suspended_frame snd_conv)+

lemma ensure_playback_context_pair:
  "ensure_playback_context e st = (b, st') \<Longrightarrow>
     simliClientRef st' = simliClientRef st \<and> simliAudioBufferRef st' = simliAudioBufferRef st \<and>
     heap st' = heap st \<and> sent (calls st') = sent (calls st)"
  using ensure_playback_context_frame [of e st] by simp

lemma decode_completed_item_frame:
  "simliClientRef (decode_completed_item e r st) = simliClientRef st"
  "simliAudioBufferRef (decode_completed_item e r st) = simliAudioBufferRef st"
  "sent (calls (decode_completed_item e r st)) = sent (calls st)"
  by (auto simp: decode_completed_item_def Let_def sent_append
        split: option.splits prod.splits bool.splits dest!: ensure_playback_context_pair)

text \<open>What the decode step does to the item store.\<close>

lemma decode_completed_item_heap:
  "heap (decode_completed_item e r st) =
     (case heap st r of
        None \<Rightarrow> heap st
      | Some it \<Rightarrow>
          (case (formatted_audio (item_formatted it), decodeResult e) of
             (Some audio, Some wavFile) \<Rightarrow>
               if item_status it = Some ''completed'' \<and> audio \<noteq> []
               then (heap st)(r \<mapsto> it\<lparr>item_formatted :=
                       (item_formatted it)\<lparr>formatted_file := Some wavFile\<rparr>\<rparr>)
               else heap st
           | _ \<Rightarrow> heap st))"
  by (auto simp: decode_completed_item_def Let_def
        split: option.splits prod.splits bool.splits dest!: ensure_playback_context_pair)

lemma process_audio_delta_heap: "heap (process_audio_delta audio st) = heap st"
proof (cases "simliClientRef st")
  case None
  then show ?thesis by (simp add: process_audio_delta_no_client)
next
  case (Some client)
  then show ?thesis
    by (cases "fst (isSimliDataChannelOpen st)")
       (simp_all add: process_audio_delta_open process_audio_delta_closed)
qed

lemma process_audio_delta_client:
  "simliClientRef (process_audio_delta audio st) = simliClientRef st"
proof (cases "simliClientRef st")
  case None
  then show ?thesis by (simp add: process_audio_delta_no_client)
next
  case (Some client)
  then show ?thesis
    by (cases "fst (isSimliDataChannelOpen st)")
       (simp_all add: process_audio_delta_open process_audio_delta_closed)
qed

lemma conversation_updated_audio:
  "simliClientRef (conversation_updated e r (Some \<lparr>delta_audio = Some audio\<rparr>) st) =
     simliClientRef st"
  "simliAudioBufferRef (conversation_updated e r (Some \<lparr>delta_audio = Some audio\<rparr>) st) =
     simliAudioBufferRef (process_audio_delta audio st)"
  "sent (calls (conversation_updated e r (Some \<lparr>delta_audio = Some audio\<rparr>) st)) =
     sent (calls (process_audio_delta audio st))"
  by (simp_all add: conversation_updated_def Let_def decode_completed_item_frame
        process_audio_delta_client)

text \<open>
  Claim C7: the gate answers true exactly when the avatar client exists, its peer
  connection is there and reports \<open>connected\<close>, and its data channel is there and
  reports \<open>open\<close>; an absent client, connection or channel gives false; the state is
  left as it was.
\<close>

theorem gate_ready_iff:
  "fst (isSimliDataChannelOpen st) =
     (\<exists>client p d. simliClientRef st = Some client \<and>
        pc client = Some p \<and> iceConnectionState p = ''connected'' \<and>
        dc client = Some d \<and> readyState d = ''open'') \<and>
   snd (isSimliDataChannelOpen st) = st"
  using gate_fst [of st] gate_snd [of st] by simp

theorem gate_ready_iff_witness:
  "fst (isSimliDataChannelOpen (initial_console\<lparr>simliClientRef := Some open_client\<rparr>)) \<and>
   \<not> fst (isSimliDataChannelOpen (initial_console\<lparr>simliClientRef := Some connecting_client\<rparr>)) \<and>
   \<not> fst (isSimliDataChannelOpen initial_console) \<and>
   snd (isSimliDataChannelOpen initial_console) = initial_console"
  using gate_ready_iff [of "initial_console\<lparr>simliClientRef := Some open_client\<rparr>"]
    gate_ready_iff [of "initial_console\<lparr>simliClientRef := Some connecting_client\<rparr>"]
    gate_ready_iff [of initial_console]
  by (simp add: initial_console_def open_client_def connecting_client_def)

text \<open>
  Claim C10: when the avatar client is not initialised, an audio delta is dropped: the
  handler does exactly what it does for an event without audio, nothing is sent and the
  buffer stays as it was, whatever the samples are.
\<close>

theorem delta_dropped_without_client:
  assumes "simliClientRef st = None"
  shows "process_audio_delta audio st = st \<and>
         conversation_updated e r (Some \<lparr>delta_audio = Some audio\<rparr>) st =
           conversation_updated e r None st \<and>
         simliAudioBufferRef (conversation_updated e r (Some \<lparr>delta_audio = Some audio\<rparr>) st) =
           simliAudioBufferRef st \<and>
         sent (calls (conversation_updated e r (Some \<lparr>delta_audio = Some audio\<rparr>) st)) =
           sent (calls st)"
  using assms
  by (simp add: conversation_updated_audio process_audio_delta_no_client)
     (simp add: conversation_updated_def process_audio_delta_no_client)

theorem delta_dropped_without_client_witness:
  "simliClientRef initial_console = None \<and>
   process_audio_delta [1, 2, 3] initial_console = initial_console \<and>
   simliAudioBufferRef
     (conversation_updated quiet_env 0 (Some \<lparr>delta_audio = Some [1, 2, 3]\<rparr>) initial_console) = [] \<and>
   sent (calls
     (conversation_updated quiet_env 0 (Some \<lparr>delta_audio = Some [1, 2, 3]\<rparr>) initial_console)) = []"
proof -
  have h: "simliClientRef initial_console = None"
    by (simp add: initial_console_def)
  note t = delta_dropped_without_client [OF h, of "[1, 2, 3]" quiet_env 0]
  have b: "simliAudioBufferRef initial_console = []" and c: "sent (calls initial_console) = []"
    by (simp_all add: initial_console_def)
  from t have "process_audio_delta [1, 2, 3] initial_console = initial_console" by blast
  moreover from t b have "simliAudioBufferRef
     (conversation_updated quiet_env 0 (Some \<lparr>delta_audio = Some [1, 2, 3]\<rparr>) initial_console) = []"
    by metis
  moreover from t c have "sent (calls
     (conversation_updated quiet_env 0 (Some \<lparr>delta_audio = Some [1, 2, 3]\<rparr>) initial_console)) = []"
    by metis
  ultimately show ?thesis using h by blast
qed

lemma gate_cong:
  "simliClientRef a = simliClientRef b \<Longrightarrow>
   fst (isSimliDataChannelOpen a) = fst (isSimliDataChannelOpen b)"
  by (simp add: gate_fst)

lemma run_Nil: "run st [] = st"
  by (simp add: run_def)

lemma run_Cons: "run st (ev # evs) = run (step st ev) evs"
  by (simp add: run_def)

lemma run_append: "run st (evs @ evs') = run (run st evs) evs'"
  by (simp add: run_def)

lemma step_audio_event:
  "step st (audio_event e r audio) =
     conversation_updated e r (Some \<lparr>delta_audio = Some audio\<rparr>) st"
  by (simp add: audio_event_def)

lemma sent_map_comp: "sent (map (SendAudioData \<circ> f) xs) = map f xs"
  by (induction xs) simp_all

lemma closed_gate_run:
  assumes "simliClientRef st = Some client" and "\<not> fst (isSimliDataChannelOpen st)"
  shows "simliClientRef (run st (map (\<lambda>(e, r, a). audio_event e r a) ds)) = Some client \<and>
         sent (calls (run st (map (\<lambda>(e, r, a). audio_event e r a) ds))) = sent (calls st) \<and>
         simliAudioBufferRef (run st (map (\<lambda>(e, r, a). audio_event e r a) ds)) =
           simliAudioBufferRef st @ map (\<lambda>(e, r, a). avatar_frame a) ds"
  using assms
proof (induction ds arbitrary: st)
  case Nil
  then show ?case by (simp add: run_Nil)
next
  case (Cons d ds)
  obtain e r a where d: "d = (e, r, a)" by (cases d)
  let ?st1 = "conversation_updated e r (Some \<lparr>delta_audio = Some a\<rparr>) st"
  have c1: "simliClientRef ?st1 = Some client"
    using Cons.prems(1) by (simp add: conversation_updated_audio)
  have g1: "\<not> fst (isSimliDataChannelOpen ?st1)"
    using Cons.prems gate_cong [of ?st1 st] by (simp add: conversation_updated_audio)
  have b1: "simliAudioBufferRef ?st1 = simliAudioBufferRef st @ [avatar_frame a]"
    using Cons.prems by (simp add: conversation_updated_audio process_audio_delta_closed)
  have s1: "sent (calls ?st1) = sent (calls st)"
    using Cons.prems by (simp add: conversation_updated_audio process_audio_delta_closed)
  from Cons.IH [OF c1 g1] show ?case
    by (simp add: d run_Cons step_audio_event b1 s1)
qed

text \<open>
  Claim C2: frames that arrive while the gate is closed are only appended to the buffer,
  none is sent; when the gate has opened, the next delta sends every buffered frame once,
  in insertion order, then its own frame, and leaves the buffer empty. The witness is the
  scenario of three buffered frames of 100 bytes.
\<close>

theorem backlog_flushed_in_order:
  assumes "simliClientRef st = Some client"
      and "\<not> fst (isSimliDataChannelOpen st)"
      and "fst (isSimliDataChannelOpen (st\<lparr>simliClientRef := Some client'\<rparr>))"
  shows "sent (calls (run st (map (\<lambda>(e, r, a). audio_event e r a) ds))) = sent (calls st) \<and>
         simliAudioBufferRef (run st (map (\<lambda>(e, r, a). audio_event e r a) ds)) =
           simliAudioBufferRef st @ map (\<lambda>(e, r, a). avatar_frame a) ds \<and>
         sent (calls (run st (map (\<lambda>(e, r, a). audio_event e r a) ds @
                 [(e1, TransportChanged (Some client')), audio_event e2 r2 audio]))) =
           sent (calls st) @ simliAudioBufferRef st @ map (\<lambda>(e, r, a). avatar_frame a) ds @
             [avatar_frame audio] \<and>
         simliAudioBufferRef (run st (map (\<lambda>(e, r, a). audio_event e r a) ds @
                 [(e1, TransportChanged (Some client')), audio_event e2 r2 audio])) = []"
proof -
  let ?st1 = "run st (map (\<lambda>(e, r, a). audio_event e r a) ds)"
  let ?st2 = "?st1\<lparr>simliClientRef := Some client'\<rparr>"
  note closed = closed_gate_run [OF assms(1,2), of ds]
  have c2: "simliClientRef ?st2 = Some client'" by simp
  have g2: "fst (isSimliDataChannelOpen ?st2)"
    using assms(3) gate_cong [of ?st2 "st\<lparr>simliClientRef := Some client'\<rparr>"] by simp
  have fin: "run st (map (\<lambda>(e, r, a). audio_event e r a) ds @
                 [(e1, TransportChanged (Some client')), audio_event e2 r2 audio]) =
             conversation_updated e2 r2 (Some \<lparr>delta_audio = Some audio\<rparr>) ?st2"
    by (simp add: run_append run_Cons run_Nil step_audio_event)
  have "sent (calls (conversation_updated e2 r2 (Some \<lparr>delta_audio = Some audio\<rparr>) ?st2)) =
          sent (calls st) @ simliAudioBufferRef st @ map (\<lambda>(e, r, a). avatar_frame a) ds @
             [avatar_frame audio]"
    using closed
    by (simp add: conversation_updated_audio process_audio_delta_open [OF c2 g2]
          sent_append sent_map_SendAudioData sent_map_comp)
  moreover have "simliAudioBufferRef
      (conversation_updated e2 r2 (Some \<lparr>delta_audio = Some audio\<rparr>) ?st2) = []"
    by (simp add: conversation_updated_audio process_audio_delta_open [OF c2 g2])
  ultimately show ?thesis using closed unfolding fin by simp
qed

lemma length_Uint8Array_of: "length (Uint8Array_of samples) = 2 * length samples"
  by (induction samples) (simp_all add: Uint8Array_of_def)

lemma outputLength_75: "outputLength 75 24000 16000 = 50"
  by code_simp

lemma length_avatar_frame_75: "length audio = 75 \<Longrightarrow> length (avatar_frame audio) = 100"
  by (simp add: avatar_frame_def length_Uint8Array_of length_resampleAudioData outputLength_75)

theorem backlog_flushed_in_order_witness:
  "simliClientRef (initial_console\<lparr>simliClientRef := Some connecting_client\<rparr>) =
     Some connecting_client \<and>
   \<not> fst (isSimliDataChannelOpen (initial_console\<lparr>simliClientRef := Some connecting_client\<rparr>)) \<and>
   fst (isSimliDataChannelOpen (initial_console\<lparr>simliClientRef := Some open_client\<rparr>)) \<and>
   sent (calls (run (initial_console\<lparr>simliClientRef := Some connecting_client\<rparr>)
     [audio_event quiet_env 0 (replicate 75 1), audio_event quiet_env 0 (replicate 75 2),
      audio_event quiet_env 0 (replicate 75 3)])) = [] \<and>
   sent (calls (run (initial_console\<lparr>simliClientRef := Some connecting_client\<rparr>)
     [audio_event quiet_env 0 (replicate 75 1), audio_event quiet_env 0 (replicate 75 2),
      audio_event quiet_env 0 (replicate 75 3),
      (quiet_env, TransportChanged (Some open_client)), audio_event quiet_env 0 [7, 8, 9]])) =
     [avatar_frame (replicate 75 1), avatar_frame (replicate 75 2), avatar_frame (replicate 75 3),
      avatar_frame [7, 8, 9]] \<and>
   simliAudioBufferRef (run (initial_console\<lparr>simliClientRef := Some connecting_client\<rparr>)
     [audio_event quiet_env 0 (replicate 75 1), audio_event quiet_env 0 (replicate 75 2),
      audio_event quiet_env 0 (replicate 75 3),
      (quiet_env, TransportChanged (Some open_client)), audio_event quiet_env 0 [7, 8, 9]]) = [] \<and>
   map length [avatar_frame (replicate 75 1), avatar_frame (replicate 75 2),
     avatar_frame (replicate 75 3)] = [100, 100, 100]"
proof -
  let ?st = "initial_console\<lparr>simliClientRef := Some connecting_client\<rparr>"
  have h1: "simliClientRef ?st = Some connecting_client" by simp
  have h2: "\<not> fst (isSimliDataChannelOpen ?st)"
    by (simp add: gate_fst connecting_client_def)
  have h3: "fst (isSimliDataChannelOpen (?st\<lparr>simliClientRef := Some open_client\<rparr>))"
    by (simp add: gate_fst open_client_def)
  have b: "simliAudioBufferRef initial_console = []" and c: "sent (calls initial_console) = []"
    by (simp_all add: initial_console_def)
  note t = backlog_flushed_in_order [OF h1 h2 h3,
      of "[(quiet_env, 0, replicate 75 1), (quiet_env, 0, replicate 75 2),
           (quiet_env, 0, replicate 75 3)]" quiet_env quiet_env 0 "[7, 8, 9]"]
  show ?thesis using t h1 h2 h3 by (simp add: b c length_avatar_frame_75)
qed

text \<open>
  Claim C9: for a completed item with non-empty audio, the handler changes nothing in the
  item store except that item's \<open>formatted.file\<close>; text and transcript stay as they
  were. When decoding fails the item is untouched, and the item list handed on is the
  session's list.
\<close>

theorem decode_changes_only_file:
  assumes "heap st r = Some it"
      and "item_status it = Some ''completed''"
      and "formatted_audio (item_formatted it) = Some audio"
      and "audio \<noteq> []"
  shows "heap (conversation_updated e r d st) =
           (heap st)(r \<mapsto> it\<lparr>item_formatted := (item_formatted it)\<lparr>formatted_file :=
              (case decodeResult e of
                 None \<Rightarrow> formatted_file (item_formatted it)
               | Some wavFile \<Rightarrow> Some wavFile)\<rparr>\<rparr>) \<and>
         items (conversation_updated e r d st) = getItems e \<and>
         (decodeResult e = None \<longrightarrow> heap (conversation_updated e r d st) = heap st)"
proof -
  let ?st1 = "case d of None \<Rightarrow> st
              | Some dl \<Rightarrow> (case delta_audio dl of None \<Rightarrow> st
                            | Some a \<Rightarrow> process_audio_delta a st)"
  have h1: "heap ?st1 = heap st"
    by (simp add: process_audio_delta_heap split: option.splits)
  have cu: "conversation_updated e r d st = (decode_completed_item e r ?st1)\<lparr>items := getItems e\<rparr>"
    by (simp add: conversation_updated_def Let_def)
  have triv: "(heap st)(r \<mapsto> it) = heap st"
    using assms(1) by (rule map_upd_triv)
  have "heap (decode_completed_item e r ?st1) =
          (heap st)(r \<mapsto> it\<lparr>item_formatted := (item_formatted it)\<lparr>formatted_file :=
              (case decodeResult e of
                 None \<Rightarrow> formatted_file (item_formatted it)
               | Some wavFile \<Rightarrow> Some wavFile)\<rparr>\<rparr>)"
    using assms triv unfolding decode_completed_item_heap h1
    by (simp split: option.splits)
  moreover have "decodeResult e = None \<longrightarrow> heap (decode_completed_item e r ?st1) = heap st"
    unfolding decode_completed_item_heap h1 using assms by (simp split: option.splits)
  ultimately show ?thesis unfolding cu by simp
qed

theorem decode_changes_only_file_witness:
  "heap (initial_console\<lparr>heap := [0 \<mapsto> sample_item]\<rparr>) 0 = Some sample_item \<and>
   item_status sample_item = Some ''completed'' \<and>
   formatted_audio (item_formatted sample_item) = Some [1, 2, 3] \<and>
   [1, 2, 3 :: int16] \<noteq> [] \<and>
   heap (conversation_updated (quiet_env\<lparr>getItems := [0]\<rparr>) 0 None
           (initial_console\<lparr>heap := [0 \<mapsto> sample_item]\<rparr>)) 0 = Some sample_item \<and>
   items (conversation_updated (quiet_env\<lparr>getItems := [0]\<rparr>) 0 None
           (initial_console\<lparr>heap := [0 \<mapsto> sample_item]\<rparr>)) = [0] \<and>
   heap (conversation_updated (quiet_env\<lparr>decodeResult := Some \<lparr>url = ''blob:1''\<rparr>\<rparr>) 0 None
           (initial_console\<lparr>heap := [0 \<mapsto> sample_item]\<rparr>)) 0 =
     Some (sample_item\<lparr>item_formatted :=
       (item_formatted sample_item)\<lparr>formatted_file := Some \<lparr>url = ''blob:1''\<rparr>\<rparr>\<rparr>)"
proof -
  let ?st = "initial_console\<lparr>heap := [0 \<mapsto> sample_item]\<rparr>"
  have h1: "heap ?st 0 = Some sample_item" by simp
  have h2: "item_status sample_item = Some ''completed''"
    and h3: "formatted_audio (item_formatted sample_item) = Some [1, 2, 3]"
    by (simp_all add: sample_item_def)
  have h4: "[1, 2, 3 :: int16] \<noteq> []" by simp
  note fail = decode_changes_only_file [OF h1 h2 h3 h4, of "quiet_env\<lparr>getItems := [0]\<rparr>" None]
  note ok = decode_changes_only_file [OF h1 h2 h3 h4,
      of "quiet_env\<lparr>decodeResult := Some \<lparr>url = ''blob:1''\<rparr>\<rparr>" None]
  have q: "decodeResult (quiet_env\<lparr>getItems := [0]\<rparr>) = None"
    by (simp add: quiet_env_def)
  from fail q have a: "heap (conversation_updated (quiet_env\<lparr>getItems := [0]\<rparr>) 0 None ?st) 0 =
      Some sample_item"
    by simp
  from fail have b: "items (conversation_updated (quiet_env\<lparr>getItems := [0]\<rparr>) 0 None ?st) = [0]"
    by simp
  from ok have c: "heap (conversation_updated
        (quiet_env\<lparr>decodeResult := Some \<lparr>url = ''blob:1''\<rparr>\<rparr>) 0 None ?st) 0 =
     Some (sample_item\<lparr>item_formatted :=
       (item_formatted sample_item)\<lparr>formatted_file := Some \<lparr>url = ''blob:1''\<rparr>\<rparr>\<rparr>)"
    by simp
  show ?thesis using h1 h2 h3 h4 a b c by blast
qed

lemma emitted_append: "calls st' = calls st @ cs \<Longrightarrow> emitted st st' = cs"
  by (simp add: emitted_def)

lemma initializeAudioContext_calls:
  "\<exists>pre. calls (snd (initializeAudioContext e st)) = calls st @ pre \<and>
         set pre \<subseteq> {NewAudioContext, ContextResume}"
  by (simp add: initializeAudioContext_def Let_def)

lemma begin_capture_calls: "calls (begin_capture e st) = calls st @ capture_calls e"
  by (simp add: begin_capture_def capture_calls_def Let_def split: option.splits)

text \<open>
  A talk press makes the calls of its audio-context prologue and then, unless a suspended
  context refused to resume, those of \<open>begin_capture\<close>.
\<close>

lemma startRecording_calls:
  "\<exists>pre. set pre \<subseteq> {NewAudioContext, ContextResume} \<and>
     emitted st (startRecording e st) =
       pre @ (if audioContext st = Some ''suspended'' \<and> \<not> resumeOk e then []
              else capture_calls e) \<and>
     (audioContext st = Some ''suspended'' \<and> \<not> resumeOk e \<longrightarrow> pre = [ContextResume])"
proof (cases "audioContext st")
  case None
  obtain pre where pre: "calls (snd (initializeAudioContext e st)) = calls st @ pre"
      "set pre \<subseteq> {NewAudioContext, ContextResume}"
    using initializeAudioContext_calls by blast
  have "startRecording e st = begin_capture e (snd (initializeAudioContext e st))"
    using None by (simp add: startRecording_def)
  then have "emitted st (startRecording e st) = pre @ capture_calls e"
    by (intro emitted_append) (simp add: begin_capture_calls pre(1))
  with pre(2) None show ?thesis by auto
next
  case (Some s)
  show ?thesis
  proof (cases "s = ''suspended''")
    case True
    show ?thesis
    proof (cases "resumeOk e")
      case True
      with \<open>s = ''suspended''\<close> Some
      have "emitted st (startRecording e st) = [ContextResume] @ capture_calls e"
        by (intro emitted_append) (simp add: startRecording_def Let_def begin_capture_calls)
      with True show ?thesis by (intro exI [of _ "[ContextResume]"]) simp
    next
      case False
      with \<open>s = ''suspended''\<close> Some
      have "emitted st (startRecording e st) = [ContextResume]"
        by (intro emitted_append) (simp add: startRecording_def Let_def)
      with False \<open>s = ''suspended''\<close> Some show ?thesis
        by (intro exI [of _ "[ContextResume]"]) simp
    qed
  next
    case False
    with Some have "emitted st (startRecording e st) = [] @ capture_calls e"
      by (intro emitted_append) (simp add: startRecording_def Let_def begin_capture_calls)
    with False Some show ?thesis by (intro exI [of _ "[]"]) simp
  qed
qed

lemma prologue_no_cancel:
  "set pre \<subseteq> {NewAudioContext, ContextResume} \<Longrightarrow>
   filter is_cancel pre = [] \<and> count_list pre PlayerInterrupt = 0"
  by (auto simp: filter_empty_conv count_list_0_iff)

text \<open>
  Claim C3, as the code has it. A talk press that gets past its audio context (there is
  none yet, or a running one, or a suspended one that resumes) calls \<open>interrupt()\<close>
  once; when that returns a track id with an offset, exactly one \<open>cancelResponse\<close>
  follows, immediately, with exactly that pair. When the context is suspended and
  \<open>resume()\<close> rejects, the handler ends before \<open>interrupt()\<close>: no cancellation is
  sent, whatever is playing. When \<open>interrupt()\<close> rejects, returns \<open>null\<close> or
  returns no track id, no cancellation is sent either.
\<close>

theorem talk_press_cancels_interrupted_track:
  "((audioContext st = Some ''suspended'' \<longrightarrow> resumeOk e) \<and> \<not> rejects e PlayerInterrupt \<and>
    interruptResult e = Some tso \<and> trackId tso = Some tid \<and> tid \<noteq> [] \<longrightarrow>
      filter is_cancel (emitted st (startRecording e st)) = [CancelResponse tid (offset tso)] \<and>
      count_list (emitted st (startRecording e st)) PlayerInterrupt = 1 \<and>
      (\<exists>pre post. set pre \<subseteq> {NewAudioContext, ContextResume} \<and> set post \<subseteq> {RecorderRecord} \<and>
         emitted st (startRecording e st) =
           pre @ [PlayerInterrupt, CancelResponse tid (offset tso)] @ post)) \<and>
   (audioContext st = Some ''suspended'' \<and> \<not> resumeOk e \<longrightarrow>
      emitted st (startRecording e st) = [ContextResume]) \<and>
   (rejects e PlayerInterrupt \<or> interruptResult e = None \<or>
    (\<exists>t. interruptResult e = Some t \<and> (trackId t = None \<or> trackId t = Some [])) \<longrightarrow>
      filter is_cancel (emitted st (startRecording e st)) = [])"
proof -
  obtain pre where pre: "set pre \<subseteq> {NewAudioContext, ContextResume}"
    and em: "emitted st (startRecording e st) =
       pre @ (if audioContext st = Some ''suspended'' \<and> \<not> resumeOk e then []
              else capture_calls e)"
    and stop: "audioContext st = Some ''suspended'' \<and> \<not> resumeOk e \<longrightarrow> pre = [ContextResume]"
    using startRecording_calls [of st e] by blast
  note p0 = prologue_no_cancel [OF pre]
  have A: "filter is_cancel (emitted st (startRecording e st)) = [CancelResponse tid (offset tso)] \<and>
      count_list (emitted st (startRecording e st)) PlayerInterrupt = 1 \<and>
      (\<exists>pre post. set pre \<subseteq> {NewAudioContext, ContextResume} \<and> set post \<subseteq> {RecorderRecord} \<and>
         emitted st (startRecording e st) =
           pre @ [PlayerInterrupt, CancelResponse tid (offset tso)] @ post)"
    if h: "audioContext st = Some ''suspended'' \<longrightarrow> resumeOk e" "\<not> rejects e PlayerInterrupt"
      "interruptResult e = Some tso" "trackId tso = Some tid" "tid \<noteq> []"
  proof -
    define post where "post =
      (if rejects e (CancelResponse tid (offset tso)) then [] else [RecorderRecord])"
    have c: "capture_calls e = [PlayerInterrupt, CancelResponse tid (offset tso)] @ post"
      using h by (simp add: capture_calls_def post_def)
    have e': "emitted st (startRecording e st) =
        pre @ [PlayerInterrupt, CancelResponse tid (offset tso)] @ post"
      using em h(1) by (simp add: c)
    have ps: "set post \<subseteq> {RecorderRecord}" by (simp add: post_def)
    then have "filter is_cancel post = []" "count_list post PlayerInterrupt = 0"
      by (auto simp: filter_empty_conv count_list_0_iff)
    then have "filter is_cancel (emitted st (startRecording e st)) =
        [CancelResponse tid (offset tso)]"
      and "count_list (emitted st (startRecording e st)) PlayerInterrupt = 1"
      using p0 by (simp_all add: e')
    with pre ps e' show ?thesis by blast
  qed
  have B: "emitted st (startRecording e st) = [ContextResume]"
    if "audioContext st = Some ''suspended'' \<and> \<not> resumeOk e"
    using em stop that by simp
  have C: "filter is_cancel (emitted st (startRecording e st)) = []"
    if h: "rejects e PlayerInterrupt \<or> interruptResult e = None \<or>
      (\<exists>t. interruptResult e = Some t \<and> (trackId t = None \<or> trackId t = Some []))"
  proof -
    have "filter is_cancel (capture_calls e) = []"
      using h by (auto simp: capture_calls_def)
    then show ?thesis using p0 by (simp add: em)
  qed
  from A B C show ?thesis by blast
qed

theorem talk_press_cancels_interrupted_track_counterexample:
  "audioContext suspended_console = Some ''suspended'' \<and>
   interruptResult (playing_env\<lparr>resumeOk := False\<rparr>) = Some \<lparr>trackId = Some ''t1'', offset = 240\<rparr> \<and>
   emitted suspended_console
     (startRecording (playing_env\<lparr>resumeOk := False\<rparr>) suspended_console) = [ContextResume] \<and>
   filter is_cancel (emitted suspended_console
     (startRecording (playing_env\<lparr>resumeOk := False\<rparr>) suspended_console)) \<noteq>
     [CancelResponse ''t1'' 240]"
  by (simp add: emitted_def startRecording_def suspended_console_def playing_env_def
        quiet_env_def initial_console_def call_def Let_def)

theorem talk_press_cancels_interrupted_track_witness:
  "filter is_cancel
     (emitted initial_console (startRecording playing_env initial_console)) =
     [CancelResponse ''t1'' 240] \<and>
   emitted initial_console (startRecording playing_env initial_console) =
     [NewAudioContext, PlayerInterrupt, CancelResponse ''t1'' 240, RecorderRecord] \<and>
   filter is_cancel
     (emitted running_console (startRecording playing_env running_console)) =
     [CancelResponse ''t1'' 240] \<and>
   emitted running_console (startRecording playing_env running_console) =
     [PlayerInterrupt, CancelResponse ''t1'' 240, RecorderRecord] \<and>
   filter is_cancel
     (emitted suspended_console (startRecording playing_env suspended_console)) =
     [CancelResponse ''t1'' 240] \<and>
   emitted suspended_console (startRecording playing_env suspended_console) =
     [ContextResume, PlayerInterrupt, CancelResponse ''t1'' 240, RecorderRecord] \<and>
   emitted suspended_console
     (startRecording (playing_env\<lparr>resumeOk := False\<rparr>) suspended_console) = [ContextResume] \<and>
   filter is_cancel
     (emitted running_console (startRecording quiet_env running_console)) = []"
proof -
  let ?tso = "\<lparr>trackId = Some ''t1'', offset = 240\<rparr>"
  have pe: "\<not> rejects playing_env PlayerInterrupt" "interruptResult playing_env = Some ?tso"
    "resumeOk playing_env" "trackId ?tso = Some ''t1''" "''t1'' \<noteq> []" "offset ?tso = 240"
    by (simp_all add: playing_env_def quiet_env_def)
  have ctx: "audioContext initial_console = None" "audioContext running_console = Some ''running''"
    "audioContext suspended_console = Some ''suspended''"
    by (simp_all add: initial_console_def running_console_def suspended_console_def)
  have a: "filter is_cancel (emitted initial_console (startRecording playing_env initial_console)) =
      [CancelResponse ''t1'' 240]"
    using talk_press_cancels_interrupted_track [of initial_console playing_env ?tso "''t1''"] pe ctx
    by simp
  have b: "filter is_cancel (emitted running_console (startRecording playing_env running_console)) =
      [CancelResponse ''t1'' 240]"
    using talk_press_cancels_interrupted_track [of running_console playing_env ?tso "''t1''"] pe ctx
    by simp
  have c: "filter is_cancel (emitted suspended_console (startRecording playing_env suspended_console)) =
      [CancelResponse ''t1'' 240]"
    using talk_press_cancels_interrupted_track [of suspended_console playing_env ?tso "''t1''"] pe ctx
    by simp
  have d: "emitted suspended_console
     (startRecording (playing_env\<lparr>resumeOk := False\<rparr>) suspended_console) = [ContextResume]"
    using talk_press_cancels_interrupted_track
      [of suspended_console "playing_env\<lparr>resumeOk := False\<rparr>" ?tso "''t1''"] ctx
    by simp
  have f: "filter is_cancel (emitted running_console (startRecording quiet_env running_console)) = []"
    using talk_press_cancels_interrupted_track [of running_console quiet_env ?tso "''t1''"]
    by (simp add: quiet_env_def)
  have a': "emitted initial_console (startRecording playing_env initial_console) =
     [NewAudioContext, PlayerInterrupt, CancelResponse ''t1'' 240, RecorderRecord]"
    by (simp add: emitted_def startRecording_def begin_capture_def initializeAudioContext_def
          initial_console_def playing_env_def quiet_env_def call_def Let_def)
  have b': "emitted running_console (startRecording playing_env running_console) =
     [PlayerInterrupt, CancelResponse ''t1'' 240, RecorderRecord]"
    by (simp add: emitted_def startRecording_def begin_capture_def running_console_def
          initial_console_def playing_env_def quiet_env_def call_def Let_def)
  have c': "emitted suspended_console (startRecording playing_env suspended_console) =
     [ContextResume, PlayerInterrupt, CancelResponse ''t1'' 240, RecorderRecord]"
    by (simp add: emitted_def startRecording_def begin_capture_def suspended_console_def
          initial_console_def playing_env_def quiet_env_def call_def Let_def)
  show ?thesis using a a' b b' c c' d f by blast
qed

lemma connect_session_calls:
  "calls (connect_session e st) = calls st @ session_calls e (simliClientRef st)"
  by (simp add: connect_session_def session_calls_def Let_def split: option.splits)

text \<open>
  \<open>connectConversation\<close> makes the calls of its audio-context prologue and then, if
  that left it a usable context, those of \<open>connect_session\<close>.
\<close>

lemma connectConversation_calls:
  "\<exists>pre. set pre \<subseteq> {NewAudioContext, ContextResume} \<and>
     emitted st (connectConversation e st) =
       pre @ (if (audioContext st = None \<and> fst (initializeAudioContext e st) = None) \<or>
                 (audioContext st = Some ''suspended'' \<and> \<not> resumeOk e)
              then [] else session_calls e (simliClientRef st))"
proof (cases "audioContext st")
  case None
  obtain pre where pre: "calls (snd (initializeAudioContext e st)) = calls st @ pre"
      "set pre \<subseteq> {NewAudioContext, ContextResume}"
    using initializeAudioContext_calls by blast
  obtain ctx st1 where i: "initializeAudioContext e st = (ctx, st1)"
    by (cases "initializeAudioContext e st")
  have st1: "calls st1 = calls st @ pre" "simliClientRef st1 = simliClientRef st"
    using pre(1) initializeAudioContext_frame(1) [of e st] by (simp_all add: i)
  show ?thesis
  proof (cases ctx)
    case None
    then have "emitted st (connectConversation e st) = pre"
      using \<open>audioContext st = None\<close> i st1
      by (intro emitted_append) (simp add: connectConversation_def)
    with pre(2) None \<open>audioContext st = None\<close> i show ?thesis
      by (intro exI [of _ pre]) simp
  next
    case (Some c)
    then have "emitted st (connectConversation e st) = pre @ session_calls e (simliClientRef st)"
      using \<open>audioContext st = None\<close> i st1
      by (intro emitted_append) (simp add: connectConversation_def connect_session_calls)
    with pre(2) Some \<open>audioContext st = None\<close> i show ?thesis
      by (intro exI [of _ pre]) simp
  qed
next
  case (Some s)
  show ?thesis
  proof (cases "s = ''suspended''")
    case True
    show ?thesis
    proof (cases "resumeOk e")
      case True
      with \<open>s = ''suspended''\<close> Some
      have "emitted st (connectConversation e st) =
          [ContextResume] @ session_calls e (simliClientRef st)"
        by (intro emitted_append) (simp add: connectConversation_def Let_def connect_session_calls)
      with True Some show ?thesis by (intro exI [of _ "[ContextResume]"]) simp
    next
      case False
      with \<open>s = ''suspended''\<close> Some
      have "emitted st (connectConversation e st) = [ContextResume]"
        by (intro emitted_append) (simp add: connectConversation_def Let_def)
      with False \<open>s = ''suspended''\<close> Some show ?thesis
        by (intro exI [of _ "[ContextResume]"]) simp
    qed
  next
    case False
    with Some have "emitted st (connectConversation e st) =
        [] @ session_calls e (simliClientRef st)"
      by (intro emitted_append) (simp add: connectConversation_def Let_def connect_session_calls)
    with False Some show ?thesis by (intro exI [of _ "[]"]) simp
  qed
qed

lemma session_calls_complete:
  assumes "\<not> rejects e ClientConnect" "\<not> rejects e RecorderBegin" "\<not> rejects e PlayerConnect"
  shows "\<exists>client. set client \<subseteq> {SimliStart, SendAudioData (replicate 6000 0)} \<and>
     session_calls e c =
       client @ [ClientConnect, RecorderBegin, PlayerConnect, GetTurnDetectionType] @
         (if getTurnDetectionType e = Some ''server_vad'' then [RecorderRecord] else [])"
  using assms by (cases c) (simp_all add: session_calls_def)

lemma session_calls_cut:
  assumes "rejects e ClientConnect \<or> rejects e RecorderBegin \<or> rejects e PlayerConnect"
  shows "GetTurnDetectionType \<notin> set (session_calls e c) \<and>
         RecorderRecord \<notin> set (session_calls e c)"
  using assms by (cases c) (auto simp: session_calls_def)

lemma session_calls_manual:
  assumes "getTurnDetectionType e \<noteq> Some ''server_vad''"
  shows "RecorderRecord \<notin> set (session_calls e c)"
  using assms by (cases c) (auto simp: session_calls_def)

lemma ensure_playback_context_calls:
  "\<exists>cs. calls (snd (ensure_playback_context e st)) = calls st @ cs \<and>
        set cs \<subseteq> {NewAudioContext, ContextResume}"
  by (auto simp: ensure_playback_context_def resume_if_suspended_def initializeAudioContext_def
        Let_def split: option.splits)

lemma decode_completed_item_calls:
  "\<exists>cs. calls (decode_completed_item e r st) = calls st @ cs \<and> RecorderRecord \<notin> set cs"
proof -
  have step: "\<exists>cs. calls (case ensure_playback_context e s of
                        (True, st3) \<Rightarrow> call (NewAudio u) st3
                      | (False, st3) \<Rightarrow> st3) = calls s @ cs \<and> RecorderRecord \<notin> set cs"
    for s u
  proof -
    obtain b st3 where p: "ensure_playback_context e s = (b, st3)"
      by (cases "ensure_playback_context e s")
    obtain cs where cs: "calls st3 = calls s @ cs" "set cs \<subseteq> {NewAudioContext, ContextResume}"
      using ensure_playback_context_calls [of e s] by (auto simp: p)
    show ?thesis
    proof (cases b)
      case True
      then have "calls (case ensure_playback_context e s of
                        (True, st3) \<Rightarrow> call (NewAudio u) st3
                      | (False, st3) \<Rightarrow> st3) = calls s @ (cs @ [NewAudio u])"
        by (simp add: p cs(1))
      moreover have "RecorderRecord \<notin> set (cs @ [NewAudio u])" using cs(2) by auto
      ultimately show ?thesis by blast
    next
      case False
      then have "calls (case ensure_playback_context e s of
                        (True, st3) \<Rightarrow> call (NewAudio u) st3
                      | (False, st3) \<Rightarrow> st3) = calls s @ cs"
        by (simp add: p cs(1))
      moreover have "RecorderRecord \<notin> set cs" using cs(2) by auto
      ultimately show ?thesis by blast
    qed
  qed
  show ?thesis
  proof (cases "heap st r")
    case None
    then show ?thesis by (simp add: decode_completed_item_def)
  next
    case (Some it)
    show ?thesis
    proof (cases "formatted_audio (item_formatted it)")
      case None
      with Some show ?thesis by (simp add: decode_completed_item_def)
    next
      case (Some audio)
      show ?thesis
      proof (cases "item_status it = Some ''completed'' \<and> length audio \<noteq> 0")
        case False
        with Some \<open>heap st r = Some it\<close> show ?thesis
          by (auto simp: decode_completed_item_def)
      next
        case True
        show ?thesis
        proof (cases "decodeResult e")
          case None
          with True Some \<open>heap st r = Some it\<close>
          have "calls (decode_completed_item e r st) = calls st @ [Decode audio]"
            by (simp add: decode_completed_item_def Let_def)
          then show ?thesis by (intro exI [of _ "[Decode audio]"]) simp
        next
          case (Some wavFile)
          let ?s = "(call (Decode audio) st)\<lparr>heap := (heap (call (Decode audio) st))(r \<mapsto>
                       it\<lparr>item_formatted :=
                            (item_formatted it)\<lparr>formatted_file := Some wavFile\<rparr>\<rparr>)\<rparr>"
          obtain cs where cs: "calls (case ensure_playback_context e ?s of
                        (True, st3) \<Rightarrow> call (NewAudio (url wavFile)) st3
                      | (False, st3) \<Rightarrow> st3) = calls ?s @ cs" "RecorderRecord \<notin> set cs"
            using step [where s = ?s and u = "url wavFile"] by blast
          have "calls (decode_completed_item e r st) = calls st @ (Decode audio # cs)"
            using True Some \<open>heap st r = Some it\<close> \<open>formatted_audio (item_formatted it) = Some audio\<close> cs(1)
            by (simp add: decode_completed_item_def Let_def)
          moreover have "RecorderRecord \<notin> set (Decode audio # cs)" using cs(2) by simp
          ultimately show ?thesis by blast
        qed
      qed
    qed
  qed
qed

lemma process_audio_delta_calls:
  "\<exists>cs. calls (process_audio_delta audio st) = calls st @ cs \<and> RecorderRecord \<notin> set cs"
proof (cases "simliClientRef st")
  case None
  then show ?thesis by (simp add: process_audio_delta_no_client)
next
  case (Some client)
  show ?thesis
  proof (cases "fst (isSimliDataChannelOpen st)")
    case True
    have "RecorderRecord \<notin> set (map SendAudioData (simliAudioBufferRef st) @
            [SendAudioData (avatar_frame audio)])"
      by auto
    then show ?thesis
      using process_audio_delta_open [OF Some True, of audio]
      by (intro exI [of _ "map SendAudioData (simliAudioBufferRef st) @
            [SendAudioData (avatar_frame audio)]"]) simp
  next
    case False
    then show ?thesis by (simp add: process_audio_delta_closed [OF Some False])
  qed
qed

lemma conversation_updated_calls:
  "\<exists>cs. calls (conversation_updated e r d st) = calls st @ cs \<and> RecorderRecord \<notin> set cs"
proof -
  let ?st1 = "case d of None \<Rightarrow> st
              | Some dl \<Rightarrow> (case delta_audio dl of None \<Rightarrow> st
                            | Some a \<Rightarrow> process_audio_delta a st)"
  have "\<exists>cs. calls ?st1 = calls st @ cs \<and> RecorderRecord \<notin> set cs"
    using process_audio_delta_calls by (auto split: option.splits)
  then obtain cs1 where cs1: "calls ?st1 = calls st @ cs1" "RecorderRecord \<notin> set cs1" by blast
  obtain cs2 where cs2: "calls (decode_completed_item e r ?st1) = calls ?st1 @ cs2"
      "RecorderRecord \<notin> set cs2"
    using decode_completed_item_calls by blast
  have "calls (conversation_updated e r d st) = calls st @ (cs1 @ cs2)"
    by (simp add: conversation_updated_def Let_def cs2(1) cs1(1))
  moreover have "RecorderRecord \<notin> set (cs1 @ cs2)" using cs1(2) cs2(2) by simp
  ultimately show ?thesis by blast
qed

lemma disconnectConversation_calls:
  "\<exists>cs. calls (disconnectConversation e st) = calls st @ cs \<and> RecorderRecord \<notin> set cs"
  by (auto simp: disconnectConversation_def Let_def split: option.splits)

lemma capture_only_on_talk_press:
  assumes "getTurnDetectionType e \<noteq> Some ''server_vad''"
      and "RecorderRecord \<in> set (emitted s (step s (e, ev)))"
  shows "ev = TalkPressed"
proof (cases ev)
  case ConnectClicked
  obtain pre where "set pre \<subseteq> {NewAudioContext, ContextResume}"
      "emitted s (connectConversation e s) =
       pre @ (if (audioContext s = None \<and> fst (initializeAudioContext e s) = None) \<or>
                 (audioContext s = Some ''suspended'' \<and> \<not> resumeOk e)
              then [] else session_calls e (simliClientRef s))"
    using connectConversation_calls [of s e] by blast
  then have "RecorderRecord \<notin> set (emitted s (connectConversation e s))"
    using session_calls_manual [OF assms(1), of "simliClientRef s"] by auto
  with assms(2) ConnectClicked show ?thesis by simp
next
  case DisconnectClicked
  obtain cs where "calls (disconnectConversation e s) = calls s @ cs" "RecorderRecord \<notin> set cs"
    using disconnectConversation_calls by blast
  then have "RecorderRecord \<notin> set (emitted s (disconnectConversation e s))"
    by (simp add: emitted_append)
  with assms(2) DisconnectClicked show ?thesis by simp
next
  case TalkPressed
  then show ?thesis .
next
  case TalkReleased
  with assms(2) show ?thesis by (simp add: emitted_def stopRecording_def Let_def split: if_splits)
next
  case (DeleteClicked i)
  with assms(2) show ?thesis by (simp add: emitted_def deleteConversationItem_def)
next
  case (ConversationUpdated r d)
  obtain cs where "calls (conversation_updated e r d s) = calls s @ cs" "RecorderRecord \<notin> set cs"
    using conversation_updated_calls by blast
  then have "RecorderRecord \<notin> set (emitted s (conversation_updated e r d s))"
    by (simp add: emitted_append)
  with assms(2) ConversationUpdated show ?thesis by simp
next
  case ConversationInterrupted
  with assms(2) show ?thesis by (simp add: emitted_def conversation_interrupted_def)
next
  case (TransportChanged client)
  with assms(2) show ?thesis by (simp add: emitted_def)
qed

text \<open>
  Claim C8, as the code has it. When \<open>connectConversation\<close> has a usable audio context
  and the session's \<open>connect\<close>, the recorder's \<open>begin\<close> and the player's
  \<open>connect\<close> all resolve, it asks for the turn-detection mode exactly once, after those
  three calls, and starts capture itself exactly when the answer is \<open>server_vad\<close>.
  When one of the three rejects, or no audio context can be had, the handler ends without
  asking and without starting capture. Under any mode other than \<open>server_vad\<close>, the
  only event whose handler starts capture is the talk press.
\<close>

theorem connect_queries_turn_detection_once:
  "((audioContext st = None \<longrightarrow> fst (initializeAudioContext e st) \<noteq> None) \<and>
    (audioContext st = Some ''suspended'' \<longrightarrow> resumeOk e) \<and>
    \<not> rejects e ClientConnect \<and> \<not> rejects e RecorderBegin \<and> \<not> rejects e PlayerConnect \<longrightarrow>
      (\<exists>pre client. set pre \<subseteq> {NewAudioContext, ContextResume} \<and>
         set client \<subseteq> {SimliStart, SendAudioData (replicate 6000 0)} \<and>
         emitted st (connectConversation e st) =
           pre @ client @ [ClientConnect, RecorderBegin, PlayerConnect, GetTurnDetectionType] @
             (if getTurnDetectionType e = Some ''server_vad'' then [RecorderRecord] else [])) \<and>
      count_list (emitted st (connectConversation e st)) GetTurnDetectionType = 1 \<and>
      (RecorderRecord \<in> set (emitted st (connectConversation e st)) \<longleftrightarrow>
         getTurnDetectionType e = Some ''server_vad'')) \<and>
   (rejects e ClientConnect \<or> rejects e RecorderBegin \<or> rejects e PlayerConnect \<or>
    (audioContext st = None \<and> fst (initializeAudioContext e st) = None) \<or>
    (audioContext st = Some ''suspended'' \<and> \<not> resumeOk e) \<longrightarrow>
      GetTurnDetectionType \<notin> set (emitted st (connectConversation e st)) \<and>
      RecorderRecord \<notin> set (emitted st (connectConversation e st))) \<and>
   (\<forall>s e' ev. getTurnDetectionType e' \<noteq> Some ''server_vad'' \<longrightarrow>
      RecorderRecord \<in> set (emitted s (step s (e', ev))) \<longrightarrow> ev = TalkPressed)"
proof -
  let ?stop = "(audioContext st = None \<and> fst (initializeAudioContext e st) = None) \<or>
               (audioContext st = Some ''suspended'' \<and> \<not> resumeOk e)"
  obtain pre where pre: "set pre \<subseteq> {NewAudioContext, ContextResume}"
    and em: "emitted st (connectConversation e st) =
       pre @ (if ?stop then [] else session_calls e (simliClientRef st))"
    using connectConversation_calls [of st e] by blast
  have p0: "count_list pre GetTurnDetectionType = 0" "RecorderRecord \<notin> set pre"
    "GetTurnDetectionType \<notin> set pre"
    using pre by (auto simp: count_list_0_iff)
  have A: "(\<exists>pre client. set pre \<subseteq> {NewAudioContext, ContextResume} \<and>
         set client \<subseteq> {SimliStart, SendAudioData (replicate 6000 0)} \<and>
         emitted st (connectConversation e st) =
           pre @ client @ [ClientConnect, RecorderBegin, PlayerConnect, GetTurnDetectionType] @
             (if getTurnDetectionType e = Some ''server_vad'' then [RecorderRecord] else [])) \<and>
      count_list (emitted st (connectConversation e st)) GetTurnDetectionType = 1 \<and>
      (RecorderRecord \<in> set (emitted st (connectConversation e st)) \<longleftrightarrow>
         getTurnDetectionType e = Some ''server_vad'')"
    if h: "\<not> ?stop" "\<not> rejects e ClientConnect" "\<not> rejects e RecorderBegin"
      "\<not> rejects e PlayerConnect"
  proof -
    obtain client where client: "set client \<subseteq> {SimliStart, SendAudioData (replicate 6000 0)}"
      and sc: "session_calls e (simliClientRef st) =
        client @ [ClientConnect, RecorderBegin, PlayerConnect, GetTurnDetectionType] @
          (if getTurnDetectionType e = Some ''server_vad'' then [RecorderRecord] else [])"
      using session_calls_complete [OF h(2-4)] by blast
    have e': "emitted st (connectConversation e st) =
        pre @ client @ [ClientConnect, RecorderBegin, PlayerConnect, GetTurnDetectionType] @
          (if getTurnDetectionType e = Some ''server_vad'' then [RecorderRecord] else [])"
      using em h(1) by (simp add: sc)
    have c0: "count_list client GetTurnDetectionType = 0" "RecorderRecord \<notin> set client"
      using client by (auto simp: count_list_0_iff)
    have "count_list (emitted st (connectConversation e st)) GetTurnDetectionType = 1"
      unfolding e' using p0 c0 by simp
    moreover have "RecorderRecord \<in> set (emitted st (connectConversation e st)) \<longleftrightarrow>
         getTurnDetectionType e = Some ''server_vad''"
      unfolding e' using p0 c0 by simp
    ultimately show ?thesis using pre client e' by blast
  qed
  have B: "GetTurnDetectionType \<notin> set (emitted st (connectConversation e st)) \<and>
      RecorderRecord \<notin> set (emitted st (connectConversation e st))"
    if h: "rejects e ClientConnect \<or> rejects e RecorderBegin \<or> rejects e PlayerConnect \<or> ?stop"
  proof (cases ?stop)
    case True
    then show ?thesis using p0 by (simp add: em)
  next
    case False
    with h have "rejects e ClientConnect \<or> rejects e RecorderBegin \<or> rejects e PlayerConnect"
      by blast
    from session_calls_cut [OF this, of "simliClientRef st"] False p0 show ?thesis
      by (simp add: em)
  qed
  have A': "\<not> ?stop"
    if "audioContext st = None \<longrightarrow> fst (initializeAudioContext e st) \<noteq> None"
      "audioContext st = Some ''suspended'' \<longrightarrow> resumeOk e"
    using that by blast
  show ?thesis
  proof (intro conjI impI allI)
    assume h: "(audioContext st = None \<longrightarrow> fst (initializeAudioContext e st) \<noteq> None) \<and>
      (audioContext st = Some ''suspended'' \<longrightarrow> resumeOk e) \<and>
      \<not> rejects e ClientConnect \<and> \<not> rejects e RecorderBegin \<and> \<not> rejects e PlayerConnect"
    then have ns: "\<not> ?stop" using A' by blast
    from h have r: "\<not> rejects e ClientConnect" "\<not> rejects e RecorderBegin"
      "\<not> rejects e PlayerConnect" by simp_all
    note a = A [OF ns r]
    from a show "\<exists>pre client. set pre \<subseteq> {NewAudioContext, ContextResume} \<and>
         set client \<subseteq> {SimliStart, SendAudioData (replicate 6000 0)} \<and>
         emitted st (connectConversation e st) =
           pre @ client @ [ClientConnect, RecorderBegin, PlayerConnect, GetTurnDetectionType] @
             (if getTurnDetectionType e = Some ''server_vad'' then [RecorderRecord] else [])"
      by (rule conjunct1)
    from a show "count_list (emitted st (connectConversation e st)) GetTurnDetectionType = 1"
      by simp
    from a show "RecorderRecord \<in> set (emitted st (connectConversation e st)) \<longleftrightarrow>
         getTurnDetectionType e = Some ''server_vad''"
      by simp
  next
    assume h: "rejects e ClientConnect \<or> rejects e RecorderBegin \<or> rejects e PlayerConnect \<or>
      (audioContext st = None \<and> fst (initializeAudioContext e st) = None) \<or>
      (audioContext st = Some ''suspended'' \<and> \<not> resumeOk e)"
    then have "rejects e ClientConnect \<or> rejects e RecorderBegin \<or> rejects e PlayerConnect \<or> ?stop"
      by blast
    note b = B [OF this]
    from b show "GetTurnDetectionType \<notin> set (emitted st (connectConversation e st))" by simp
    from b show "RecorderRecord \<notin> set (emitted st (connectConversation e st))" by simp
  next
    fix s e' ev
    assume "getTurnDetectionType e' \<noteq> Some ''server_vad''"
      and "RecorderRecord \<in> set (emitted s (step s (e', ev)))"
    then show "ev = TalkPressed" by (rule capture_only_on_talk_press)
  qed
qed

theorem connect_queries_turn_detection_once_counterexample:
  "\<not> rejects no_microphone_env ClientConnect \<and>
   getTurnDetectionType no_microphone_env = Some ''server_vad'' \<and>
   emitted initial_console (connectConversation no_microphone_env initial_console) =
     [NewAudioContext, ClientConnect, RecorderBegin] \<and>
   count_list (emitted initial_console (connectConversation no_microphone_env initial_console))
     GetTurnDetectionType = 0 \<and>
   RecorderRecord \<notin> set (emitted initial_console
     (connectConversation no_microphone_env initial_console))"
  by (simp add: emitted_def connectConversation_def connect_session_def
        initializeAudioContext_def initial_console_def no_microphone_env_def quiet_env_def
        call_def Let_def)

theorem connect_queries_turn_detection_once_witness:
  "emitted initial_console
     (connectConversation (quiet_env\<lparr>getTurnDetectionType := Some ''server_vad''\<rparr>) initial_console) =
     [NewAudioContext, ClientConnect, RecorderBegin, PlayerConnect, GetTurnDetectionType,
      RecorderRecord] \<and>
   count_list (emitted initial_console
     (connectConversation (quiet_env\<lparr>getTurnDetectionType := Some ''server_vad''\<rparr>) initial_console))
     GetTurnDetectionType = 1 \<and>
   emitted running_console (connectConversation quiet_env running_console) =
     [ClientConnect, RecorderBegin, PlayerConnect, GetTurnDetectionType] \<and>
   count_list (emitted running_console (connectConversation quiet_env running_console))
     GetTurnDetectionType = 1 \<and>
   RecorderRecord \<notin> set (emitted running_console (connectConversation quiet_env running_console)) \<and>
   emitted suspended_console
     (connectConversation (quiet_env\<lparr>getTurnDetectionType := Some ''server_vad''\<rparr>)
        suspended_console) =
     [ContextResume, ClientConnect, RecorderBegin, PlayerConnect, GetTurnDetectionType,
      RecorderRecord] \<and>
   RecorderRecord \<in> set (emitted suspended_console
     (connectConversation (quiet_env\<lparr>getTurnDetectionType := Some ''server_vad''\<rparr>)
        suspended_console)) \<and>
   GetTurnDetectionType \<notin> set (emitted initial_console
     (connectConversation no_microphone_env initial_console))"
proof -
  let ?vad = "quiet_env\<lparr>getTurnDetectionType := Some ''server_vad''\<rparr>"
  have q: "\<not> rejects quiet_env ClientConnect" "\<not> rejects quiet_env RecorderBegin"
    "\<not> rejects quiet_env PlayerConnect" "resumeOk quiet_env"
    "getTurnDetectionType quiet_env \<noteq> Some ''server_vad''"
    "\<not> rejects ?vad ClientConnect" "\<not> rejects ?vad RecorderBegin"
    "\<not> rejects ?vad PlayerConnect" "resumeOk ?vad"
    "getTurnDetectionType ?vad = Some ''server_vad''"
    "rejects no_microphone_env RecorderBegin"
    by (simp_all add: quiet_env_def no_microphone_env_def)
  have ctx: "audioContext initial_console = None" "audioContext running_console = Some ''running''"
    "audioContext suspended_console = Some ''suspended''"
    by (simp_all add: initial_console_def running_console_def suspended_console_def)
  have i: "fst (initializeAudioContext ?vad initial_console) \<noteq> None"
    by (simp add: initializeAudioContext_def quiet_env_def Let_def)
  have a: "count_list (emitted initial_console (connectConversation ?vad initial_console))
      GetTurnDetectionType = 1"
    using connect_queries_turn_detection_once [of initial_console ?vad] q ctx i by simp
  have b: "count_list (emitted running_console (connectConversation quiet_env running_console))
      GetTurnDetectionType = 1 \<and>
    RecorderRecord \<notin> set (emitted running_console (connectConversation quiet_env running_console))"
    using connect_queries_turn_detection_once [of running_console quiet_env] q ctx by simp
  have c: "RecorderRecord \<in> set (emitted suspended_console
      (connectConversation ?vad suspended_console))"
    using connect_queries_turn_detection_once [of suspended_console ?vad] q ctx by simp
  have d: "GetTurnDetectionType \<notin> set (emitted initial_console
      (connectConversation no_microphone_env initial_console))"
    using connect_queries_turn_detection_once [of initial_console no_microphone_env] q by simp
  have a': "emitted initial_console (connectConversation ?vad initial_console) =
     [NewAudioContext, ClientConnect, RecorderBegin, PlayerConnect, GetTurnDetectionType,
      RecorderRecord]"
    by (simp add: emitted_def connectConversation_def connect_session_def
          initializeAudioContext_def initial_console_def quiet_env_def call_def Let_def)
  have b': "emitted running_console (connectConversation quiet_env running_console) =
     [ClientConnect, RecorderBegin, PlayerConnect, GetTurnDetectionType]"
    by (simp add: emitted_def connectConversation_def connect_session_def
          running_console_def initial_console_def quiet_env_def call_def Let_def)
  have c': "emitted suspended_console (connectConversation ?vad suspended_console) =
     [ContextResume, ClientConnect, RecorderBegin, PlayerConnect, GetTurnDetectionType,
      RecorderRecord]"
    by (simp add: emitted_def connectConversation_def connect_session_def
          suspended_console_def initial_console_def quiet_env_def call_def Let_def)
  show ?thesis using a a' b b' c c' d by blast
qed

lemma sent_prologue: "set pre \<subseteq> {NewAudioContext, ContextResume} \<Longrightarrow> sent pre = []"
  by (induction pre rule: sent.induct) simp_all

lemma connectConversation_buffer:
  "simliAudioBufferRef (connectConversation e st) = simliAudioBufferRef st"
proof -
  have cs: "simliAudioBufferRef (connect_session e s) = simliAudioBufferRef s" for s
    by (simp add: connect_session_def Let_def split: option.splits)
  show ?thesis
    using initializeAudioContext_frame(2) [of e st]
    by (auto simp: connectConversation_def Let_def cs split: option.splits prod.splits)
qed

lemma connectConversation_sent:
  "\<exists>ys. sent (calls (connectConversation e st)) = sent (calls st) @ ys \<and>
        (ys = [] \<or> ys = [replicate 6000 0])"
proof -
  have cs: "\<exists>ys. sent (calls (connect_session e s)) = sent (calls s) @ ys \<and>
        (ys = [] \<or> ys = [replicate 6000 0])" for s
    by (cases "simliClientRef s")
       (simp_all add: connect_session_calls session_calls_def sent_append)
  show ?thesis
  proof (cases "audioContext st")
    case None
    obtain ctx st1 where i: "initializeAudioContext e st = (ctx, st1)"
      by (cases "initializeAudioContext e st")
    have s1: "sent (calls st1) = sent (calls st)"
      using initializeAudioContext_frame(4) [of e st] by (simp add: i)
    show ?thesis
      using None cs [of st1] by (cases ctx) (simp_all add: connectConversation_def i s1)
  next
    case (Some s)
    have r: "sent (calls ((call ContextResume st)\<lparr>audioContext := Some ''running''\<rparr>)) = sent (calls st)"
      by (simp add: sent_append)
    show ?thesis
      using Some cs [of st] cs [of "(call ContextResume st)\<lparr>audioContext := Some ''running''\<rparr>"]
      by (auto simp: connectConversation_def Let_def r sent_append)
  qed
qed

lemma disconnectConversation_frames:
  "simliAudioBufferRef (disconnectConversation e st) = simliAudioBufferRef st"
  "sent (calls (disconnectConversation e st)) = sent (calls st)"
  by (simp_all add: disconnectConversation_def Let_def sent_append split: option.splits)

lemma begin_capture_frames:
  "simliAudioBufferRef (begin_capture e st) = simliAudioBufferRef st"
  "sent (calls (begin_capture e st)) = sent (calls st)"
  by (simp_all add: begin_capture_def Let_def sent_append split: option.splits)

lemma startRecording_frames:
  "simliAudioBufferRef (startRecording e st) = simliAudioBufferRef st"
  "sent (calls (startRecording e st)) = sent (calls st)"
  by (simp_all add: startRecording_def Let_def begin_capture_frames initializeAudioContext_frame
        sent_append split: option.splits)

lemma stopRecording_frames:
  "simliAudioBufferRef (stopRecording e st) = simliAudioBufferRef st"
  "sent (calls (stopRecording e st)) = sent (calls st)"
  by (simp_all add: stopRecording_def Let_def sent_append)

lemma conversation_updated_no_audio:
  assumes "d = None \<or> (\<exists>dl. d = Some dl \<and> delta_audio dl = None)"
  shows "simliAudioBufferRef (conversation_updated e r d st) = simliAudioBufferRef st"
    and "sent (calls (conversation_updated e r d st)) = sent (calls st)"
  using assms by (auto simp: conversation_updated_def Let_def decode_completed_item_frame)

lemma process_audio_delta_frames:
  "\<exists>ys. sent (calls (process_audio_delta audio st)) = sent (calls st) @ ys \<and>
        mset ys + mset (simliAudioBufferRef (process_audio_delta audio st)) \<subseteq>#
          mset (simliAudioBufferRef st) + {#avatar_frame audio#}"
proof (cases "simliClientRef st")
  case None
  then show ?thesis by (simp add: process_audio_delta_no_client)
next
  case (Some client)
  show ?thesis
  proof (cases "fst (isSimliDataChannelOpen st)")
    case True
    show ?thesis
      by (intro exI [of _ "simliAudioBufferRef st @ [avatar_frame audio]"])
         (simp add: process_audio_delta_open [OF Some True] sent_append sent_map_SendAudioData)
  next
    case False
    show ?thesis by (simp add: process_audio_delta_closed [OF Some False])
  qed
qed

lemma step_frames:
  "\<exists>ys. sent (calls (step st ev)) = sent (calls st) @ ys \<and>
        mset ys + mset (simliAudioBufferRef (step st ev)) \<subseteq>#
          mset (simliAudioBufferRef st) + mset (frames_of_event (snd ev))"
proof -
  obtain e x where ev: "ev = (e, x)" by (cases ev)
  show ?thesis
  proof (cases x)
    case ConnectClicked
    obtain ys where "sent (calls (connectConversation e st)) = sent (calls st) @ ys"
        "ys = [] \<or> ys = [replicate 6000 0]"
      using connectConversation_sent by blast
    then show ?thesis
      unfolding ev ConnectClicked by (auto simp: connectConversation_buffer)
  next
    case DisconnectClicked
    then show ?thesis by (simp add: ev disconnectConversation_frames)
  next
    case TalkPressed
    then show ?thesis by (simp add: ev startRecording_frames)
  next
    case TalkReleased
    then show ?thesis by (simp add: ev stopRecording_frames)
  next
    case (DeleteClicked i)
    then show ?thesis by (simp add: ev deleteConversationItem_def sent_append)
  next
    case (ConversationUpdated r d)
    show ?thesis
    proof (cases "d = None \<or> (\<exists>dl. d = Some dl \<and> delta_audio dl = None)")
      case True
      then show ?thesis
        unfolding ev ConversationUpdated by (auto simp: conversation_updated_no_audio)
    next
      case False
      then obtain dl audio where d: "d = Some dl" "delta_audio dl = Some audio" by auto
      then have dl: "dl = \<lparr>delta_audio = Some audio\<rparr>" by (cases dl) simp
      show ?thesis
        using process_audio_delta_frames [of audio st]
        unfolding ev ConversationUpdated d(1) dl
        by (simp add: conversation_updated_audio)
    qed
  next
    case ConversationInterrupted
    then show ?thesis by (simp add: ev conversation_interrupted_def)
  next
    case (TransportChanged client)
    then show ?thesis by (simp add: ev)
  qed
qed

lemma run_frames:
  "\<exists>ys. sent (calls (run st evs)) = sent (calls st) @ ys \<and>
        mset ys + mset (simliAudioBufferRef (run st evs)) \<subseteq>#
          mset (simliAudioBufferRef st) + mset (concat (map (\<lambda>ev. frames_of_event (snd ev)) evs))"
proof (induction evs arbitrary: st)
  case Nil
  then show ?case by (simp add: run_Nil)
next
  case (Cons ev evs)
  obtain ys1 where y1: "sent (calls (step st ev)) = sent (calls st) @ ys1"
    and m1: "mset ys1 + mset (simliAudioBufferRef (step st ev)) \<subseteq>#
          mset (simliAudioBufferRef st) + mset (frames_of_event (snd ev))"
    using step_frames by blast
  obtain ys2 where y2: "sent (calls (run (step st ev) evs)) = sent (calls (step st ev)) @ ys2"
    and m2: "mset ys2 + mset (simliAudioBufferRef (run (step st ev) evs)) \<subseteq>#
          mset (simliAudioBufferRef (step st ev)) +
          mset (concat (map (\<lambda>ev. frames_of_event (snd ev)) evs))"
    using Cons.IH by blast
  have "mset ys1 + (mset ys2 + mset (simliAudioBufferRef (run (step st ev) evs))) \<subseteq>#
        mset ys1 + (mset (simliAudioBufferRef (step st ev)) +
          mset (concat (map (\<lambda>ev. frames_of_event (snd ev)) evs)))"
    using m2 by (simp only: mset_subset_eq_mono_add_left_cancel)
  also have "\<dots> = (mset ys1 + mset (simliAudioBufferRef (step st ev))) +
          mset (concat (map (\<lambda>ev. frames_of_event (snd ev)) evs))"
    by (simp only: add.assoc)
  also have "\<dots> \<subseteq># (mset (simliAudioBufferRef st) + mset (frames_of_event (snd ev))) +
          mset (concat (map (\<lambda>ev. frames_of_event (snd ev)) evs))"
    using m1 by (simp only: mset_subset_eq_mono_add_right_cancel)
  finally have "mset (ys1 @ ys2) + mset (simliAudioBufferRef (run st (ev # evs))) \<subseteq>#
        mset (simliAudioBufferRef st) +
          mset (concat (map (\<lambda>ev. frames_of_event (snd ev)) (ev # evs)))"
    by (simp add: run_Cons add.assoc)
  moreover have "sent (calls (run st (ev # evs))) = sent (calls st) @ (ys1 @ ys2)"
    by (simp add: run_Cons y2 y1)
  ultimately show ?case by blast
qed

text \<open>
  Claim C4: the interruption handler leaves the buffer empty, and whatever events follow,
  every frame sent afterwards is matched, one for one, by a frame that arrived after the
  interruption (a later delta's frame, or the silence a connect sends): no frame that was
  in the buffer before is among them.
\<close>

theorem interruption_discards_backlog:
  "simliAudioBufferRef (conversation_interrupted st) = [] \<and>
   (\<exists>later. sent (calls (run (conversation_interrupted st) evs)) = sent (calls st) @ later \<and>
      mset later \<subseteq># mset (concat (map (\<lambda>ev. frames_of_event (snd ev)) evs)))"
proof -
  obtain ys where y: "sent (calls (run (conversation_interrupted st) evs)) =
        sent (calls (conversation_interrupted st)) @ ys"
    and m: "mset ys + mset (simliAudioBufferRef (run (conversation_interrupted st) evs)) \<subseteq>#
          mset (simliAudioBufferRef (conversation_interrupted st)) +
          mset (concat (map (\<lambda>ev. frames_of_event (snd ev)) evs))"
    using run_frames by blast
  have "mset ys \<subseteq># mset ys + mset (simliAudioBufferRef (run (conversation_interrupted st) evs))"
    by (rule mset_subset_eq_add_left)
  also note m
  finally have "mset ys \<subseteq># mset (concat (map (\<lambda>ev. frames_of_event (snd ev)) evs))"
    by (simp add: conversation_interrupted_def)
  with y show ?thesis by (auto simp: conversation_interrupted_def)
qed



lemma avatar_frame_789: "avatar_frame [7, 8, 9] = [7, 0, 8, 0]"
  by code_simp

theorem interruption_discards_backlog_witness:
  "simliAudioBufferRef two_of_three_sent = [[3, 0]] \<and>
   sent (calls two_of_three_sent) = [[1, 0], [2, 0]] \<and>
   simliAudioBufferRef (conversation_interrupted two_of_three_sent) = [] \<and>
   sent (calls (run (conversation_interrupted two_of_three_sent)
     [audio_event quiet_env 0 [7, 8, 9]])) = [[1, 0], [2, 0], [7, 0, 8, 0]] \<and>
   [3, 0] \<notin> set (drop 2 (sent (calls (run (conversation_interrupted two_of_three_sent)
     [audio_event quiet_env 0 [7, 8, 9]]))))"
proof -
  let ?evs = "[audio_event quiet_env 0 [7, 8, 9]]"
  let ?st' = "run (conversation_interrupted two_of_three_sent) ?evs"
  note t = interruption_discards_backlog [of two_of_three_sent ?evs]
  have s0: "sent (calls two_of_three_sent) = [[1, 0], [2, 0]]"
    and b0: "simliAudioBufferRef two_of_three_sent = [[3, 0]]"
    by (simp_all add: two_of_three_sent_def)
  from t have a: "simliAudioBufferRef (conversation_interrupted two_of_three_sent) = []"
    by (rule conjunct1)
  from t obtain later where l: "sent (calls ?st') = sent (calls two_of_three_sent) @ later"
    and m: "mset later \<subseteq># mset (concat (map (\<lambda>ev. frames_of_event (snd ev)) ?evs))"
    by blast
  from m have "set later \<subseteq> {[7, 0, 8, 0]}"
    using set_mset_mono [OF m] by (simp add: audio_event_def avatar_frame_789)
  then have n: "[3, 0] \<notin> set (drop 2 (sent (calls ?st')))"
    unfolding l s0 by auto
  have c: "simliClientRef (conversation_interrupted two_of_three_sent) = Some open_client"
    by (simp add: conversation_interrupted_def two_of_three_sent_def)
  have g: "fst (isSimliDataChannelOpen (conversation_interrupted two_of_three_sent))"
    by (simp add: gate_fst c open_client_def)
  have "sent (calls ?st') =
        sent (calls (process_audio_delta [7, 8, 9] (conversation_interrupted two_of_three_sent)))"
    by (simp add: run_Cons run_Nil step_audio_event conversation_updated_audio)
  also have "\<dots> = sent (calls (conversation_interrupted two_of_three_sent)) @
        simliAudioBufferRef (conversation_interrupted two_of_three_sent) @ [avatar_frame [7, 8, 9]]"
    by (simp add: process_audio_delta_open [OF c g] sent_append sent_map_SendAudioData)
  also have "\<dots> = [[1, 0], [2, 0], [7, 0, 8, 0]]"
    using s0 by (simp add: a avatar_frame_789) (simp add: conversation_interrupted_def)
  finally have d: "sent (calls ?st') = [[1, 0], [2, 0], [7, 0, 8, 0]]" .
  show ?thesis using s0 b0 a d n by blast
qed

end
